theory Spec2Isabelle
  imports Main "HOL-Library.Word"
begin

unbundle bit_operations_syntax

section \<open>Data model of the JET reader\<close>

text \<open>
  A Node \<open>Buffer\<close> is a list of bytes. A JavaScript string is a list of UTF-16 code
  units. A JavaScript number that is only ever an integer is an \<open>int\<close>; where the
  source can produce \<open>NaN\<close> (the sum with an \<open>undefined\<close> array element), the
  number is an \<open>int option\<close> with \<open>None\<close> for \<open>NaN\<close>.
\<close>

type_synonym byte = "8 word"
type_synonym buffer = "byte list"
type_synonym jsstring = "16 word list"

text \<open>
  Every \<open>throw\<close> of the source and of the runtime below it is a value:
  \<open>UnknownVersion v\<close> is \<open>Error(`Unknown database version ${v}`)\<close>,
  \<open>NotSupported\<close> is \<open>Error('JETDB3 not supported')\<close> of the older
  \<open>databaseVersion\<close>, \<open>RangeError\<close> is an out-of-range read,
  \<open>AssertionError\<close> is a failed \<open>assert\<close> of the binary parser,
  \<open>TypeError\<close> is a property read on \<open>undefined\<close>, \<open>IoError\<close> is
  whatever the file read throws, \<open>ArrayLengthError\<close> is the binary parser's
  \<open>Error('One of readUntil, length and lengthInBytes must be defined for array.')\<close>,
  raised when an \<open>array\<close> is declared with the number 0 as its \<open>length\<close>. \<open>UnknownTable\<close> is the error kind of the
  specification for a table name without a catalog row; no path of the source builds it.
\<close>

datatype error =
    UnknownVersion int
  | NotSupported
  | RangeError
  | AssertionError
  | TypeError
  | IoError
  | ArrayLengthError
  | UnknownTable jsstring

definition ebind :: "error + 'a \<Rightarrow> ('a \<Rightarrow> error + 'b) \<Rightarrow> error + 'b" where
  "ebind m f = (case m of Inl e \<Rightarrow> Inl e | Inr x \<Rightarrow> f x)"

datatype Version = JETDB3 | JETDB4

record DatabaseConfig =
  pageSize :: nat
  version :: Version

subsection \<open>Buffer primitives\<close>

text \<open>\<open>buf[i]\<close>: \<open>undefined\<close> (here \<open>None\<close>) out of range.\<close>

definition byteAt :: "buffer \<Rightarrow> nat \<Rightarrow> byte option" where
  "byteAt buf i = (if i < length buf then Some (buf ! i) else None)"

text \<open>
  \<open>buf.readUInt8(off)\<close>, \<open>readUInt16LE\<close>, \<open>readUInt32LE\<close>,
  \<open>readBigUInt64LE\<close>: a \<open>RangeError\<close> unless the whole field lies in the buffer
  (and for a \<open>NaN\<close> offset).
\<close>

definition inRange :: "buffer \<Rightarrow> int \<Rightarrow> nat \<Rightarrow> bool" where
  "inRange buf off n = (0 \<le> off \<and> off + int n \<le> int (length buf))"

fun leNat :: "byte list \<Rightarrow> nat" where
  "leNat [] = 0"
| "leNat (b # bs) = unat b + 256 * leNat bs"

definition readLE :: "nat \<Rightarrow> buffer \<Rightarrow> int option \<Rightarrow> error + nat" where
  "readLE n buf off =
     (case off of
        None \<Rightarrow> Inl RangeError
      | Some o' \<Rightarrow>
          if inRange buf o' n then Inr (leNat (take n (drop (nat o') buf)))
          else Inl RangeError)"

definition readUInt8 :: "buffer \<Rightarrow> int option \<Rightarrow> error + nat" where
  "readUInt8 = readLE 1"

definition readUInt16LE :: "buffer \<Rightarrow> int option \<Rightarrow> error + nat" where
  "readUInt16LE = readLE 2"

definition readUInt32LE :: "buffer \<Rightarrow> int option \<Rightarrow> error + nat" where
  "readUInt32LE = readLE 4"

definition readBigUInt64LE :: "buffer \<Rightarrow> int option \<Rightarrow> error + nat" where
  "readBigUInt64LE = readLE 8"

text \<open>\<open>buf.readInt8(off)\<close>: the byte as a two's complement number.\<close>

definition readInt8 :: "buffer \<Rightarrow> int \<Rightarrow> error + int" where
  "readInt8 buf off =
     (if inRange buf off 1 then Inr (sint (buf ! nat off)) else Inl RangeError)"

text \<open>
  \<open>buf.subarray(s, e)\<close>: \<open>NaN\<close> counts as 0, a negative index counts from the
  end, both ends are clamped to the buffer, and an end before the start gives the empty
  buffer.
\<close>

definition clampIndex :: "nat \<Rightarrow> int option \<Rightarrow> nat" where
  "clampIndex len i =
     (case i of
        None \<Rightarrow> 0
      | Some j \<Rightarrow> if j < 0 then nat (int len + j) else min (nat j) len)"

definition subarray :: "buffer \<Rightarrow> int option \<Rightarrow> int option \<Rightarrow> buffer" where
  "subarray buf s e =
     (let s' = clampIndex (length buf) s; e' = clampIndex (length buf) e
      in take (e' - s') (drop s' buf))"

section \<open>Header decoding\<close>

text \<open>
  \<open>JetDb.databaseConfig\<close>: \<open>switch (buf.readInt8(0x14))\<close> with the cases
  \<open>Version.JETDB3 = 0\<close> and \<open>Version.JETDB4 = 1\<close>.
\<close>

definition databaseConfig :: "buffer \<Rightarrow> error + DatabaseConfig" where
  "databaseConfig buf =
     ebind (readInt8 buf 0x14) (\<lambda>v.
       if v = 0 then Inr \<lparr>pageSize = 2048, version = JETDB3\<rparr>
       else if v = 1 then Inr \<lparr>pageSize = 4096, version = JETDB4\<rparr>
       else Inl (UnknownVersion v))"

text \<open>
  \<open>JetDb.databaseVersion\<close> of the older \<open>src/jetdb.ts\<close>, which rejects JET3.
\<close>

definition databaseVersion :: "buffer \<Rightarrow> error + DatabaseConfig" where
  "databaseVersion buf =
     ebind (readInt8 buf 0x14) (\<lambda>v.
       if v = 0 then Inl NotSupported
       else if v = 1 then Inr \<lparr>pageSize = 4096, version = JETDB4\<rparr>
       else Inl (UnknownVersion v))"

section \<open>Unicode decompression\<close>

text \<open>
  \<open>JetDb.decompressUnicode\<close>. The state of the \<open>while\<close> loop is
  \<open>(compress, pos, tlen, slen, dst)\<close>. A write \<open>dst[tlen] = x\<close> past the end of
  \<open>dst\<close> is dropped by the runtime, as \<open>list_update\<close> does; an \<open>undefined\<close>
  source byte is not \<open>== 0x00\<close> and is stored as 0.
\<close>

definition storeByte :: "byte option \<Rightarrow> byte" where
  "storeByte b = (case b of None \<Rightarrow> 0 | Some x \<Rightarrow> x)"

function decompressLoop ::
  "buffer \<Rightarrow> nat \<Rightarrow> bool \<Rightarrow> nat \<Rightarrow> nat \<Rightarrow> nat \<Rightarrow> buffer \<Rightarrow> nat \<times> buffer" where
  "decompressLoop src dlen compress pos tlen slen dst =
     (if slen > 0 \<and> tlen < dlen then
        if byteAt src pos = Some 0 then
          decompressLoop src dlen (\<not> compress) (pos + 1) tlen (slen - 1) dst
        else if compress then
          decompressLoop src dlen compress (pos + 1) (tlen + 2) (slen - 1)
            (dst[tlen := storeByte (byteAt src pos), tlen + 1 := 0])
        else if slen \<ge> 2 then
          decompressLoop src dlen compress (pos + 2) (tlen + 2) (slen - 2)
            (dst[tlen := storeByte (byteAt src pos),
                 tlen + 1 := storeByte (byteAt src (pos + 1))])
        else (tlen, dst)
      else (tlen, dst))"
  by pat_completeness auto
termination
  by (relation "measure (\<lambda>(src, dlen, compress, pos, tlen, slen, dst). slen)") auto

declare decompressLoop.simps [simp del]

definition decompressUnicode :: "buffer \<Rightarrow> nat \<Rightarrow> nat \<Rightarrow> buffer" where
  "decompressUnicode src slen dlen =
     (let (tlen, dst) = decompressLoop src dlen True 0 0 slen (replicate (slen * 2) 0)
      in take tlen dst)"

section \<open>Text decoding\<close>

text \<open>
  \<open>buf.toString('latin1')\<close>: one code unit per byte.
  \<open>buf.toString('utf16le')\<close>: one code unit per pair of bytes, low byte first; a
  trailing odd byte is dropped.
\<close>

definition latin1 :: "buffer \<Rightarrow> jsstring" where
  "latin1 buf = map ucast buf"

fun utf16le :: "buffer \<Rightarrow> jsstring" where
  "utf16le (lo # hi # rest) = word_of_nat (unat lo + 256 * unat hi) # utf16le rest"
| "utf16le [b] = []"
| "utf16le [] = []"

text \<open>\<open>JetDb.parseText\<close>.\<close>

definition parseText :: "DatabaseConfig \<Rightarrow> buffer \<Rightarrow> jsstring" where
  "parseText cfg buf =
     (if version cfg = JETDB3 then latin1 buf
      else if byteAt buf 0 = Some 0xff \<and> byteAt buf 1 = Some 0xfe then
        (let slen = length buf - 2
         in utf16le (decompressUnicode
              (subarray buf (Some 2) (Some (int (length buf)))) slen (slen * 2)))
      else utf16le buf)"

section \<open>Schema, slots and values\<close>

text \<open>
  \<open>TdefColumn\<close>, \<open>Tdef\<close> (the fields the row decoder reads), \<open>RowOffset\<close>,
  \<open>ColumnData\<close> and \<open>Row\<close>. The fields \<open>type\<close>, \<open>number\<close>, \<open>length\<close>,
  \<open>next\<close>, \<open>name\<close> and \<open>value\<close> carry a prefix here.
\<close>

record TdefColumn =
  col_type :: nat
  col_number :: nat
  offsetF :: nat
  offsetV :: nat
  col_length :: nat
  bitmask :: nat

record Tdef =
  cols :: "TdefColumn list"
  colNames :: "jsstring list"
  usedPagesPage :: nat

record RowOffset =
  lookupFlag :: nat
  delFlag :: bool
  offset :: nat
  slot_next :: nat

text \<open>
  \<open>ColumnValue = number | bigint | string | Date | null\<close>. No path of the decoder
  builds a \<open>Date\<close>. A double is kept as the 64 bits \<open>readDoubleLE\<close> read.
\<close>

datatype ColumnValue =
    VNumber int
  | VDouble "64 word"
  | VBigInt nat
  | VString jsstring
  | VNull

record ColumnData =
  cd_position :: nat
  cd_rawValue :: buffer
  cd_type :: nat
  cd_name :: jsstring
  cd_isNull :: bool
  cd_value :: ColumnValue

record Row =
  columns :: "ColumnData list"
  row_number :: nat

definition jsstr :: "string \<Rightarrow> jsstring" where
  "jsstr s = map (\<lambda>c. word_of_nat (of_char c)) s"

section \<open>The page reader\<close>

text \<open>
  \<open>BufferReader.readBuffer(size, position)\<close>: a zero-filled buffer of \<open>size\<close> bytes
  over which the bytes of the file from \<open>size * position\<close> on are copied; a short read
  leaves the zeros. A negative file position makes \<open>fs.readSync\<close> throw.
\<close>

definition readBuffer :: "buffer \<Rightarrow> nat \<Rightarrow> int \<Rightarrow> error + buffer" where
  "readBuffer file sz position =
     (if position < 0 then Inl IoError
      else (let chunk = take sz (drop (sz * nat position) file)
            in Inr (chunk @ replicate (sz - length chunk) 0)))"

text \<open>
  The first step of the constructor of \<open>JetDb\<close>:
  \<open>this.config = this.databaseConfig(this.reader.readBuffer(2048, 0))\<close>.
\<close>

definition openConfig :: "buffer \<Rightarrow> error + DatabaseConfig" where
  "openConfig file = ebind (readBuffer file 2048 0) databaseConfig"

section \<open>Row-offset table of a data page\<close>

text \<open>
  An \<open>array\<close> of the binary parser with a fixed \<open>length\<close>: \<open>count\<close> little-endian
  fields of \<open>n\<close> bytes from \<open>off\<close> on; a field outside the buffer is a
  \<open>RangeError\<close>, and no field is read when \<open>count = 0\<close>. This is the parse
  alone; a parser declared with the number 0 as its length is refused before it parses
  (see \<open>rowLayout\<close>).
\<close>

fun readArray :: "nat \<Rightarrow> buffer \<Rightarrow> int \<Rightarrow> nat \<Rightarrow> error + nat list" where
  "readArray n buf off 0 = Inr []"
| "readArray n buf off (Suc k) =
     ebind (readLE n buf (Some off)) (\<lambda>x.
     ebind (readArray n buf (off + int n) k) (\<lambda>xs. Inr (x # xs)))"

text \<open>The callback of \<open>parsed.offsets.map\<close> in \<open>JetDb.parseOffsets\<close>.\<close>

definition rowOffset :: "DatabaseConfig \<Rightarrow> nat list \<Rightarrow> nat \<Rightarrow> RowOffset" where
  "rowOffset cfg offsets idx =
     (let os = offsets ! idx;
          nxt = (if idx > 0 then (offsets ! (idx - 1)) AND 0x1fff else pageSize cfg)
      in \<lparr>lookupFlag = os AND 0x8000,
          delFlag = (os AND 0x4000 \<noteq> 0),
          offset = os AND 0x1fff,
          slot_next = nxt\<rparr>)"

text \<open>
  \<open>JetDb.parseOffsets\<close>: \<open>uint8 pagecode\<close> asserted to be 1, one byte skipped,
  \<open>uint16 freeSpaceInPage\<close>, \<open>uint32 tdefPage\<close>, four bytes skipped for JET4,
  \<open>uint16 numRows\<close>, then \<open>numRows\<close> times \<open>uint16\<close>. \<open>headerSize\<close> is the
  offset the parser has reached when it reads \<open>numRows\<close>.
\<close>

definition headerSize :: "DatabaseConfig \<Rightarrow> nat" where
  "headerSize cfg = (if version cfg = JETDB4 then 12 else 8)"

definition parseOffsets :: "DatabaseConfig \<Rightarrow> buffer \<Rightarrow> error + RowOffset list" where
  "parseOffsets cfg buf =
     ebind (readUInt8 buf (Some 0)) (\<lambda>pagecode.
       if pagecode \<noteq> 1 then Inl AssertionError
       else
     ebind (readUInt16LE buf (Some 2)) (\<lambda>freeSpaceInPage.
     ebind (readUInt32LE buf (Some 4)) (\<lambda>tdefPage.
     ebind (readUInt16LE buf (Some (int (headerSize cfg)))) (\<lambda>numRows.
     ebind (readArray 2 buf (int (headerSize cfg) + 2) numRows) (\<lambda>offsets.
       Inr (map (rowOffset cfg offsets) [0..<length offsets]))))))"

section \<open>Value decoding\<close>

text \<open>
  \<open>tmp >> 8\<close> on a number read by \<open>readUint32LE\<close>: the operand is taken as a
  signed 32-bit integer and shifted arithmetically.
\<close>

definition sar8 :: "nat \<Rightarrow> int" where
  "sar8 tmp = sint (word_of_nat tmp :: 32 word) div 256"

definition jsAdd :: "int option \<Rightarrow> int \<Rightarrow> int option" where
  "jsAdd a b = map_option (\<lambda>x. x + b) a"

text \<open>The \<open>case 12\<close> (memo) branch of \<open>JetDb.parseColumn\<close>.\<close>

definition parseMemo ::
  "DatabaseConfig \<Rightarrow> buffer \<Rightarrow> buffer \<Rightarrow> int option \<Rightarrow> error + ColumnValue" where
  "parseMemo cfg file buf start =
     ebind (readUInt16LE buf start) (\<lambda>memoLen0.
     ebind (readUInt8 buf (jsAdd start 2)) (\<lambda>memoLen2.
     ebind (readUInt8 buf (jsAdd start 3)) (\<lambda>memoMask.
     ebind (readUInt32LE buf (jsAdd start 4)) (\<lambda>tmp.
       let memoLen = memoLen0 + memoLen2;
           memoPage = sar8 tmp;
           memoRow = tmp AND 0xff
       in if memoMask = 0x80 then
            Inr (VString (parseText cfg
              (subarray buf (jsAdd start 12) (jsAdd start (12 + int memoLen)))))
          else if memoMask = 0x40 then
            ebind (readBuffer file (pageSize cfg) memoPage) (\<lambda>memoBuffer.
            ebind (parseOffsets cfg memoBuffer) (\<lambda>offsets.
              if memoRow < length offsets then
                Inr (VString (parseText cfg
                  (subarray memoBuffer (Some (int (offset (offsets ! memoRow))))
                     (Some (int (slot_next (offsets ! memoRow)))))))
              else Inl TypeError))
          else Inr (VString (jsstr ''[unknown type]''))))))"

text \<open>\<open>JetDb.parseColumn\<close>: the \<open>switch\<close> on \<open>column.type\<close>.\<close>

definition parseColumn ::
  "DatabaseConfig \<Rightarrow> buffer \<Rightarrow> buffer \<Rightarrow> TdefColumn \<Rightarrow> int option \<Rightarrow> int
     \<Rightarrow> error + ColumnValue" where
  "parseColumn cfg file buf column start len =
     (if col_type column = 1 then
        ebind (readUInt8 buf start) (\<lambda>v. Inr (VNumber (if v \<noteq> 0 then 1 else 0)))
      else if col_type column = 2 then
        ebind (readUInt8 buf start) (\<lambda>v. Inr (VNumber (int v)))
      else if col_type column = 3 then
        ebind (readUInt16LE buf start) (\<lambda>v. Inr (VNumber (int v)))
      else if col_type column = 4 then
        ebind (readUInt32LE buf start) (\<lambda>v. Inr (VNumber (int v)))
      else if col_type column = 7 then
        ebind (readBigUInt64LE buf start) (\<lambda>v. Inr (VDouble (word_of_nat v)))
      else if col_type column = 8 then
        ebind (readBigUInt64LE buf start) (\<lambda>v. Inr (VBigInt v))
      else if col_type column = 10 then
        Inr (VString (parseText cfg (subarray buf start (jsAdd start len))))
      else if col_type column = 12 then
        parseMemo cfg file buf start
      else Inr (VString (jsstr ''[unknown type]'')))"

section \<open>Rows of a data page\<close>

text \<open>\<open>xs[i]\<close> on an array: \<open>undefined\<close> (here \<open>None\<close>) out of range.\<close>

definition elemAt :: "'a list \<Rightarrow> nat \<Rightarrow> 'a option" where
  "elemAt xs i = (if i < length xs then Some (xs ! i) else None)"

text \<open>
  Eight \<open>bit1\<close> fields of a little-endian parser over one byte, flattened by
  \<open>Object.values\<close>: the bits of the byte, lowest first.
\<close>

definition bitsOf :: "nat \<Rightarrow> nat list" where
  "bitsOf b = map (\<lambda>i. if bit b i then 1 else 0) [0..<8]"

text \<open>
  The start and length of a column inside a row, as the callback of
  \<open>schema.cols.forEach\<close> computes them. \<open>varOffsets[column.offsetV]\<close> out of range
  makes the start \<open>NaN\<close>; \<open>column.offsetV + 1 in varOffsets\<close> is the range test.
\<close>

definition columnSlice ::
  "RowOffset \<Rightarrow> nat \<Rightarrow> nat list \<Rightarrow> TdefColumn \<Rightarrow> int option \<times> int" where
  "columnSlice slot varLenSize varOffsets column =
     (if bitmask column AND 1 = 1 then
        (Some (int (offset slot + offsetF column + varLenSize)),
         int (col_length column))
      else
        (map_option (\<lambda>v. int (offset slot + v)) (elemAt varOffsets (offsetV column)),
         if offsetV column + 1 < length varOffsets then
           int (varOffsets ! (offsetV column + 1)) - int (varOffsets ! offsetV column)
         else 0))"

definition readColumn ::
  "DatabaseConfig \<Rightarrow> buffer \<Rightarrow> buffer \<Rightarrow> Tdef \<Rightarrow> RowOffset \<Rightarrow> nat \<Rightarrow> nat list
     \<Rightarrow> nat list \<Rightarrow> TdefColumn \<Rightarrow> nat \<Rightarrow> error + ColumnData" where
  "readColumn cfg file buf schema slot varLenSize varOffsets nullMask column idx =
     (let (start, len) = columnSlice slot varLenSize varOffsets column;
          nullBit = elemAt nullMask (col_number column)
      in ebind (if len > 0 then parseColumn cfg file buf column start len
                else Inr (if nullBit = Some 0 then VNull else VString []))
           (\<lambda>columnValue.
              case elemAt (colNames schema) idx of
                None \<Rightarrow> Inl TypeError
              | Some nm \<Rightarrow>
                  Inr \<lparr>cd_position = col_number column,
                       cd_rawValue = subarray buf start (jsAdd start len),
                       cd_type = col_type column,
                       cd_name = nm,
                       cd_isNull = (nullBit = Some 0),
                       cd_value = columnValue\<rparr>))"

text \<open>\<open>schema.cols.forEach\<close>, pushing onto \<open>columnData\<close>.\<close>

fun readColumns ::
  "DatabaseConfig \<Rightarrow> buffer \<Rightarrow> buffer \<Rightarrow> Tdef \<Rightarrow> RowOffset \<Rightarrow> nat \<Rightarrow> nat list
     \<Rightarrow> nat list \<Rightarrow> nat \<Rightarrow> TdefColumn list \<Rightarrow> error + ColumnData list" where
  "readColumns cfg file buf schema slot varLenSize varOffsets nullMask idx [] = Inr []"
| "readColumns cfg file buf schema slot varLenSize varOffsets nullMask idx (column # rest) =
     ebind (readColumn cfg file buf schema slot varLenSize varOffsets nullMask column idx)
       (\<lambda>cd.
     ebind (readColumns cfg file buf schema slot varLenSize varOffsets nullMask (idx + 1) rest)
       (\<lambda>cds. Inr (cd # cds)))"

text \<open>
  The body of the \<open>forEach\<close> over the slots in \<open>JetDb.readRowsForPage\<close>, up to the
  push of the row. Its first part reads the layout of the row: the column count at the
  start of the slot, the null-mask size, the variable-column count before the null mask,
  the variable-offset table before that (reversed, with the end offset pushed last), and
  the null mask at the end of the slot, flattened to bits. \<open>rowLayout\<close> returns
  \<open>(varLenSize, varOffsets, nullMask)\<close>. Its second part is the loop over the columns.

  The two tables are read by parsers built on the spot with the count as a number,
  \<open>.array('', {type: ..., length: varLen})\<close> and
  \<open>.array('', {type: ..., length: nullMaskSize})\<close>. The binary parser refuses an array
  whose \<open>length\<close> is the number 0, so the row fails when it has no variable column
  (after \<open>varLen\<close> is read) and when its column count is 0 (after the end offset is
  read). The array of \<open>parseOffsets\<close> names its length by the field \<open>'numRows'\<close> and
  is not concerned.
\<close>

definition rowLayout ::
  "DatabaseConfig \<Rightarrow> buffer \<Rightarrow> RowOffset \<Rightarrow> error + (nat \<times> nat list \<times> nat list)" where
  "rowLayout cfg buf slot =
     (let varLenSize = (if version cfg = JETDB3 then 1 else 2)
      in
     ebind (readLE varLenSize buf (Some (int (offset slot)))) (\<lambda>columnsInRow.
       let nullMaskSize = (columnsInRow + 7) div 8;
           varLenAt = int (slot_next slot) - int varLenSize - int nullMaskSize
       in
     ebind (readLE varLenSize buf (Some varLenAt)) (\<lambda>varLen.
       if varLen = 0 then Inl ArrayLengthError
       else
     ebind (readArray varLenSize buf (varLenAt - int (varLen * varLenSize)) varLen) (\<lambda>table.
     ebind (readLE varLenSize buf
              (Some (varLenAt - int (varLenSize * varLen) - int varLenSize))) (\<lambda>endOffset.
       if nullMaskSize = 0 then Inl ArrayLengthError
       else
     ebind (readArray 1 buf (int (slot_next slot) - int nullMaskSize) nullMaskSize) (\<lambda>maskBytes.
       Inr (varLenSize, rev table @ [endOffset], concat (map bitsOf maskBytes))))))))"

definition readRow ::
  "DatabaseConfig \<Rightarrow> buffer \<Rightarrow> buffer \<Rightarrow> Tdef \<Rightarrow> RowOffset \<Rightarrow> error + ColumnData list" where
  "readRow cfg file buf schema slot =
     ebind (rowLayout cfg buf slot) (\<lambda>(varLenSize, varOffsets, nullMask).
       readColumns cfg file buf schema slot varLenSize varOffsets nullMask 0 (cols schema))"

text \<open>
  \<open>.forEach((offset, idx) => ...)\<close> on the slots that survived the filter: \<open>idx\<close>
  counts the surviving slots.
\<close>

fun rowsLoop ::
  "DatabaseConfig \<Rightarrow> buffer \<Rightarrow> buffer \<Rightarrow> Tdef \<Rightarrow> nat \<Rightarrow> RowOffset list \<Rightarrow> error + Row list" where
  "rowsLoop cfg file buf schema idx [] = Inr []"
| "rowsLoop cfg file buf schema idx (slot # rest) =
     ebind (readRow cfg file buf schema slot) (\<lambda>columnData.
     ebind (rowsLoop cfg file buf schema (idx + 1) rest) (\<lambda>rows.
       Inr (\<lparr>columns = columnData, row_number = idx\<rparr> # rows)))"

definition readRowsForPage ::
  "DatabaseConfig \<Rightarrow> buffer \<Rightarrow> buffer \<Rightarrow> Tdef \<Rightarrow> error + Row list" where
  "readRowsForPage cfg file buf schema =
     ebind (parseOffsets cfg buf) (\<lambda>offsets.
       rowsLoop cfg file buf schema 0 (filter (\<lambda>p. \<not> delFlag p) offsets))"

text \<open>\<open>JetDb.readRows\<close>.\<close>

fun readRows :: "DatabaseConfig \<Rightarrow> buffer \<Rightarrow> Tdef \<Rightarrow> nat list \<Rightarrow> error + Row list" where
  "readRows cfg file schema [] = Inr []"
| "readRows cfg file schema (pageNumber # rest) =
     ebind (readBuffer file (pageSize cfg) (int pageNumber)) (\<lambda>buf.
     ebind (readRowsForPage cfg file buf schema) (\<lambda>rows.
     ebind (readRows cfg file schema rest) (\<lambda>more. Inr (rows @ more))))"

section \<open>Used-pages map\<close>

text \<open>\<open>JetDb.readPageBitmap\<close>: the page numbers whose bit is set, counting from \<open>pageStart\<close>.\<close>

fun bitmapPages :: "nat list \<Rightarrow> nat \<Rightarrow> nat list" where
  "bitmapPages [] c = []"
| "bitmapPages (el # els) c =
     (if el = 1 then c # bitmapPages els (c + 1) else bitmapPages els (c + 1))"

definition readPageBitmap :: "buffer \<Rightarrow> nat \<Rightarrow> nat list" where
  "readPageBitmap buf pageStart = bitmapPages (concat (map (\<lambda>b. bitsOf (unat b)) buf)) pageStart"

text \<open>An \<open>array\<close> of \<open>uint32\<close> read until the end of the buffer.\<close>

fun readAllUInt32 :: "buffer \<Rightarrow> error + nat list" where
  "readAllUInt32 [] = Inr []"
| "readAllUInt32 (a # b # c # d # rest) =
     ebind (readAllUInt32 rest) (\<lambda>xs. Inr (leNat [a, b, c, d] # xs))"
| "readAllUInt32 (a # rest) = Inl RangeError"

text \<open>The loop over \<open>pages.entries()\<close> of the paged map (\<open>mapType == 1\<close>).\<close>

fun pagedMap :: "DatabaseConfig \<Rightarrow> buffer \<Rightarrow> nat \<Rightarrow> nat list \<Rightarrow> error + nat list" where
  "pagedMap cfg file idx [] = Inr []"
| "pagedMap cfg file idx (pageNumber # rest) =
     (if pageNumber > 0 then
        ebind (readBuffer file (pageSize cfg) (int pageNumber)) (\<lambda>page.
        ebind (pagedMap cfg file (idx + 1) rest) (\<lambda>more.
          Inr (readPageBitmap (drop 4 page) (idx * ((pageSize cfg - 4) * 8)) @ more)))
      else pagedMap cfg file (idx + 1) rest)"

text \<open>\<open>JetDb.parseUsedPagesMap\<close>.\<close>

definition parseUsedPagesMap :: "DatabaseConfig \<Rightarrow> buffer \<Rightarrow> buffer \<Rightarrow> error + nat list" where
  "parseUsedPagesMap cfg file buf =
     (let skip = (if version cfg = JETDB3 then 10 else 14)
      in
     ebind (readUInt16LE buf (Some skip)) (\<lambda>firstPageApplies.
     ebind (readUInt8 buf (Some (int firstPageApplies))) (\<lambda>mapType.
       let bitmap = drop (firstPageApplies + 1) buf
       in if mapType = 1 then
            ebind (readAllUInt32 bitmap) (\<lambda>pages. pagedMap cfg file 0 pages)
          else
            ebind (readUInt32LE bitmap (Some 0)) (\<lambda>pageStart.
              Inr (readPageBitmap (drop 4 bitmap) pageStart)))))"

section \<open>The handle and its operations\<close>

record JetDb =
  reader :: buffer
  userTables :: "Row list"
  schema :: "Tdef list"
  config :: DatabaseConfig

text \<open>\<open>Array.prototype.find\<close> and \<open>findIndex\<close>; the latter answers \<open>-1\<close> when no element matches.\<close>

fun findIndex :: "('a \<Rightarrow> bool) \<Rightarrow> 'a list \<Rightarrow> int" where
  "findIndex P [] = - 1"
| "findIndex P (x # xs) =
     (if P x then 0 else (let r = findIndex P xs in if r < 0 then - 1 else r + 1))"

text \<open>
  \<open>p.columns.find(p => p.name == 'Name')?.value == table\<close>. The comparison is the
  loose \<open>==\<close> against a string: \<open>undefined\<close> and \<open>null\<close> are never equal to it, a
  string is equal when it is the same string, and a number or bigint is first
  compared after a conversion of the string, which \<open>coerceEq\<close> stands for.
\<close>

definition nameMatches ::
  "(ColumnValue \<Rightarrow> jsstring \<Rightarrow> bool) \<Rightarrow> jsstring \<Rightarrow> Row \<Rightarrow> bool" where
  "nameMatches coerceEq table p =
     (case find (\<lambda>c. cd_name c = jsstr ''Name'') (columns p) of
        None \<Rightarrow> False
      | Some c \<Rightarrow>
          (case cd_value c of
             VNull \<Rightarrow> False
           | VString s \<Rightarrow> s = table
           | v \<Rightarrow> coerceEq v table))"

definition tableIndex :: "(ColumnValue \<Rightarrow> jsstring \<Rightarrow> bool) \<Rightarrow> JetDb \<Rightarrow> jsstring \<Rightarrow> int" where
  "tableIndex coerceEq db table = findIndex (nameMatches coerceEq table) (userTables db)"

text \<open>\<open>this.schema[tableIndex]\<close>: \<open>undefined\<close> for \<open>-1\<close> and past the end.\<close>

definition schemaAt :: "JetDb \<Rightarrow> int \<Rightarrow> Tdef option" where
  "schemaAt db i = (if 0 \<le> i then elemAt (schema db) (nat i) else None)"

text \<open>\<open>JetDb.columns\<close> and \<open>JetDb.rows\<close>.\<close>

definition columns_of ::
  "(ColumnValue \<Rightarrow> jsstring \<Rightarrow> bool) \<Rightarrow> JetDb \<Rightarrow> jsstring \<Rightarrow> error + jsstring list" where
  "columns_of coerceEq db table =
     (case schemaAt db (tableIndex coerceEq db table) of
        None \<Rightarrow> Inl TypeError
      | Some t \<Rightarrow> Inr (colNames t))"

definition rows ::
  "(ColumnValue \<Rightarrow> jsstring \<Rightarrow> bool) \<Rightarrow> JetDb \<Rightarrow> jsstring \<Rightarrow> error + Row list" where
  "rows coerceEq db table =
     (case schemaAt db (tableIndex coerceEq db table) of
        None \<Rightarrow> Inl TypeError
      | Some t \<Rightarrow>
          ebind (readBuffer (reader db) (pageSize (config db)) (int (usedPagesPage t))) (\<lambda>buf.
          ebind (parseUsedPagesMap (config db) (reader db) buf) (\<lambda>usedPagesMap.
            readRows (config db) (reader db) t usedPagesMap)))"

section \<open>Sample inputs\<close>

text \<open>
  Concrete inputs for the examples below. \<open>samplePage\<close> is a JET4 data page of 4096
  bytes with two slots. Slot 0 is flagged deleted and starts at 54. Slot 1 is a live row in
  the bytes 32 to 53: the column count 4, a byte column (7), eight bytes of a currency
  column, the compressed text \<open>0xFF 0xFE 'h' 'i'\<close>, the end offset 15 of the variable
  area, the variable offset 11, the variable-column count 1, and the null mask
  \<open>0b00000010\<close>, in which only column 1 is present.
\<close>

definition jet4 :: DatabaseConfig where
  "jet4 = \<lparr>pageSize = 4096, version = JETDB4\<rparr>"

definition samplePage :: buffer where
  "samplePage =
     [1, 1, 0, 0, 0, 0, 0, 0, 0, 0, 0, 0, 2, 0, 0x36, 0x40, 0x20, 0x00,
      0, 0, 0, 0, 0, 0, 0, 0, 0, 0, 0, 0, 0, 0,
      4, 0, 7, 1, 2, 3, 4, 5, 6, 7, 8, 0xff, 0xfe, 0x68, 0x69, 15, 0, 11, 0, 1, 0, 2]
     @ replicate 4042 0"

definition sampleSlots :: "RowOffset list" where
  "sampleSlots =
     [\<lparr>lookupFlag = 0, delFlag = True, offset = 54, slot_next = 4096\<rparr>,
      \<lparr>lookupFlag = 0, delFlag = False, offset = 32, slot_next = 54\<rparr>]"

definition colA :: TdefColumn where
  "colA = \<lparr>col_type = 2, col_number = 0, offsetF = 0, offsetV = 0, col_length = 1, bitmask = 1\<rparr>"

definition colB :: TdefColumn where
  "colB = \<lparr>col_type = 10, col_number = 1, offsetF = 0, offsetV = 0, col_length = 0, bitmask = 0\<rparr>"

definition colC :: TdefColumn where
  "colC = \<lparr>col_type = 5, col_number = 2, offsetF = 1, offsetV = 0, col_length = 8, bitmask = 1\<rparr>"

definition colD :: TdefColumn where
  "colD = \<lparr>col_type = 10, col_number = 3, offsetF = 0, offsetV = 1, col_length = 0, bitmask = 0\<rparr>"

definition sampleTdef :: Tdef where
  "sampleTdef =
     \<lparr>cols = [colA, colB, colC, colD],
      colNames = [jsstr ''A'', jsstr ''B'', jsstr ''C'', jsstr ''D''],
      usedPagesPage = 0\<rparr>"

definition cdA :: ColumnData where
  "cdA = \<lparr>cd_position = 0, cd_rawValue = [7], cd_type = 2, cd_name = jsstr ''A'',
           cd_isNull = True, cd_value = VNumber 7\<rparr>"

definition cdB :: ColumnData where
  "cdB = \<lparr>cd_position = 1, cd_rawValue = [0xff, 0xfe, 0x68, 0x69], cd_type = 10,
           cd_name = jsstr ''B'', cd_isNull = False, cd_value = VString [0x68, 0x69]\<rparr>"

definition cdC :: ColumnData where
  "cdC = \<lparr>cd_position = 2, cd_rawValue = [1, 2, 3, 4, 5, 6, 7, 8], cd_type = 5,
           cd_name = jsstr ''C'', cd_isNull = True, cd_value = VString (jsstr ''[unknown type]'')\<rparr>"

definition cdD :: ColumnData where
  "cdD = \<lparr>cd_position = 3, cd_rawValue = [], cd_type = 10, cd_name = jsstr ''D'',
           cd_isNull = True, cd_value = VNull\<rparr>"

text \<open>
  \<open>memoPage\<close> is a JET4 data page whose live row (slot 1, bytes 32 to 60) has one memo
  column of 20 bytes: the length bytes \<open>02 00 01\<close>, the mask \<open>0x80\<close> (inline), eight
  bytes of page pointer and padding, and the text bytes \<open>A\<close>, \<open>B\<close>, \<open>C\<close>, \<open>D\<close> in
  UTF-16LE.
\<close>

definition memoPage :: buffer where
  "memoPage =
     [1, 1, 0, 0, 0, 0, 0, 0, 0, 0, 0, 0, 2, 0, 0x3D, 0x40, 0x20, 0x00,
      0, 0, 0, 0, 0, 0, 0, 0, 0, 0, 0, 0, 0, 0,
      1, 0,
      2, 0, 1, 0x80, 0, 0, 0, 0, 0, 0, 0, 0, 0x41, 0, 0x42, 0, 0x43, 0, 0x44, 0,
      22, 0, 2, 0, 1, 0, 1]
     @ replicate 4035 0"

definition memoTdef :: Tdef where
  "memoTdef =
     \<lparr>cols = [\<lparr>col_type = 12, col_number = 0, offsetF = 0, offsetV = 0,
                col_length = 0, bitmask = 0\<rparr>],
      colNames = [jsstr ''M''],
      usedPagesPage = 0\<rparr>"

text \<open>A handle whose catalog has the single user table \<open>Table1\<close>.\<close>

definition sampleDb :: JetDb where
  "sampleDb =
     \<lparr>reader = [],
      userTables =
        [\<lparr>columns = [\<lparr>cd_position = 0, cd_rawValue = [], cd_type = 10,
                       cd_name = jsstr ''Name'', cd_isNull = False,
                       cd_value = VString (jsstr ''Table1'')\<rparr>],
          row_number = 0\<rparr>],
      schema = [sampleTdef],
      config = jet4\<rparr>"

section \<open>The decompressor as the specification words it\<close>

text \<open>
  This definition follows the specification (section 4.7), not the source; it is what
  the source's loop is compared with. It walks the remaining input with the compression
  flag and the number of bytes emitted so far: it stops when the input is exhausted or
  \<open>dlen\<close> bytes have been emitted; a \<open>0x00\<close> byte toggles the flag and emits
  nothing; with the flag on, a byte \<open>b\<close> emits \<open>(b, 0x00)\<close>; with the flag off,
  two remaining bytes are emitted verbatim, and a single remaining byte stops the walk.
\<close>

fun specDecompress :: "bool \<Rightarrow> nat \<Rightarrow> nat \<Rightarrow> byte list \<Rightarrow> byte list" where
  "specDecompress flag emitted dlen [] = []"
| "specDecompress flag emitted dlen (b # bs) =
     (if dlen \<le> emitted then []
      else if b = 0 then specDecompress (\<not> flag) emitted dlen bs
      else if flag then b # 0 # specDecompress flag (emitted + 2) dlen bs
      else (case bs of
              [] \<Rightarrow> []
            | c # cs \<Rightarrow> b # c # specDecompress flag (emitted + 2) dlen cs))"

section \<open>Header decoding: version detection\<close>

lemma readInt8_ok: "n < length buf \<Longrightarrow> readInt8 buf (int n) = Inr (sint (buf ! n))"
  by (simp add: readInt8_def inRange_def)

lemma sint8_eq0: "(sint (b :: byte) = 0) = (b = 0)"
  by (simp add: signed_eq_0_iff)

lemma sint8_eq1: "(sint (b :: byte) = 1) = (b = 1)"
proof
  assume "sint b = 1"
  then have "sint b = sint (1 :: byte)" by simp
  then show "b = 1" by (rule signed_word_eqI)
qed simp

text \<open>
  On a buffer that holds offset \<open>0x14\<close>, \<open>databaseConfig\<close> decides by that byte
  alone.
\<close>

lemma databaseConfig_byte:
  assumes "0x14 < length buf"
  shows "databaseConfig buf =
     (if buf ! 0x14 = 0 then Inr \<lparr>pageSize = 2048, version = JETDB3\<rparr>
      else if buf ! 0x14 = 1 then Inr \<lparr>pageSize = 4096, version = JETDB4\<rparr>
      else Inl (UnknownVersion (sint (buf ! 0x14))))"
proof -
  have "readInt8 buf 0x14 = Inr (sint (buf ! 0x14))"
    using readInt8_ok [of 20 buf] assms by simp
  then show ?thesis
    by (simp add: databaseConfig_def ebind_def sint8_eq0 sint8_eq1)
qed

text \<open>
  C1, as the code has it. Opening reads the first 2048 bytes of the file (zero-filled
  when the file is shorter) and looks at the byte at offset \<open>0x14\<close>: \<open>0x00\<close> gives
  the JET3 configuration with page size 2048 and \<open>0x01\<close> the JET4 configuration with
  page size 4096; every other byte fails with the unknown-version error, which carries
  the byte read as a signed 8-bit number (\<open>readInt8\<close>): the byte itself up to
  \<open>0x7F\<close>, the byte minus 256 from \<open>0x80\<close> on.
\<close>

theorem databaseConfig_header_byte:
  "\<exists>buf. readBuffer file 2048 0 = Inr buf \<and> length buf = 2048 \<and>
     take (length file) buf = take 2048 file \<and>
     openConfig file =
       (if buf ! 0x14 = 0 then Inr \<lparr>pageSize = 2048, version = JETDB3\<rparr>
        else if buf ! 0x14 = 1 then Inr \<lparr>pageSize = 4096, version = JETDB4\<rparr>
        else Inl (UnknownVersion (sint (buf ! 0x14))))"
proof -
  let ?buf = "take 2048 file @ replicate (2048 - length (take 2048 file)) 0"
  have rd: "readBuffer file 2048 0 = Inr ?buf"
    by (simp add: readBuffer_def Let_def)
  have len: "length ?buf = 2048" by simp
  then have "0x14 < length ?buf" by simp
  from databaseConfig_byte [OF this] rd
  have "openConfig file =
       (if ?buf ! 0x14 = 0 then Inr \<lparr>pageSize = 2048, version = JETDB3\<rparr>
        else if ?buf ! 0x14 = 1 then Inr \<lparr>pageSize = 4096, version = JETDB4\<rparr>
        else Inl (UnknownVersion (sint (?buf ! 0x14))))"
    by (simp add: openConfig_def ebind_def)
  moreover have "take (length file) ?buf = take 2048 file"
    by (simp add: min_def)
  ultimately show ?thesis using rd len by blast
qed

text \<open>
  The test of the repository: a buffer of 21 bytes with \<open>buf[0x14] = 2\<close> fails with
  \<open>Unknown database version 2\<close>, and so does opening a file of these 21 bytes.
\<close>

lemma databaseConfig_test_buffer:
  "databaseConfig (replicate 20 0 @ [2]) = Inl (UnknownVersion 2)"
  using databaseConfig_byte [of "replicate 20 0 @ [2]"] by (simp add: nth_append)

theorem databaseConfig_header_byte_witness:
  "openConfig (replicate 20 0 @ [2]) = Inl (UnknownVersion 2)"
proof -
  from databaseConfig_header_byte [of "replicate 20 0 @ [2]"]
  obtain buf where rd: "readBuffer (replicate 20 0 @ [2]) 2048 0 = Inr buf"
    and cfg: "openConfig (replicate 20 0 @ [2]) =
       (if buf ! 0x14 = 0 then Inr \<lparr>pageSize = 2048, version = JETDB3\<rparr>
        else if buf ! 0x14 = 1 then Inr \<lparr>pageSize = 4096, version = JETDB4\<rparr>
        else Inl (UnknownVersion (sint (buf ! 0x14))))"
    by blast
  from rd have "buf = replicate 20 0 @ [2] @ replicate 2027 0"
    by (simp add: readBuffer_def Let_def)
  then have "buf ! 0x14 = 2" by (simp add: nth_append)
  with cfg show ?thesis by simp
qed

text \<open>
  C1 as stated fails for the bytes from \<open>0x80\<close> on: a file whose first 2048 bytes have
  \<open>0xFF\<close> at offset \<open>0x14\<close> is rejected with \<open>Unknown database version -1\<close>, not
  with the byte value 255.
\<close>

theorem databaseConfig_signed_counterexample:
  "openConfig (replicate 20 0 @ [255] @ replicate 2027 0) = Inl (UnknownVersion (- 1)) \<and>
   openConfig (replicate 20 0 @ [255] @ replicate 2027 0) \<noteq> Inl (UnknownVersion 255)"
  by (simp add: openConfig_def readBuffer_def Let_def databaseConfig_def ebind_def
      readInt8_def inRange_def nth_append)

text \<open>
  The older \<open>databaseVersion\<close> of \<open>src/jetdb.ts\<close> differs in the first case only:
  it refuses JET3.
\<close>

lemma databaseVersion_header_byte:
  assumes "0x14 < length buf"
  shows "databaseVersion buf =
     (if buf ! 0x14 = 0 then Inl NotSupported
      else if buf ! 0x14 = 1 then Inr \<lparr>pageSize = 4096, version = JETDB4\<rparr>
      else Inl (UnknownVersion (sint (buf ! 0x14))))"
proof -
  have "readInt8 buf 0x14 = Inr (sint (buf ! 0x14))"
    using readInt8_ok [of 20 buf] assms by simp
  then show ?thesis
    by (simp add: databaseVersion_def ebind_def sint8_eq0 sint8_eq1)
qed

section \<open>Unicode decompression: termination, bounds and the step rules\<close>

text \<open>
  The loop keeps \<open>tlen\<close> even and within \<open>dlen\<close>, and never changes the size of
  \<open>dst\<close>. The proof follows the loop (computation induction), one case per branch.
\<close>

lemma decompressLoop_shape:
  "decompressLoop src dlen compress pos tlen slen dst = (tlen', dst') \<Longrightarrow>
   even tlen \<Longrightarrow> even dlen \<Longrightarrow> tlen \<le> dlen \<Longrightarrow>
   even tlen' \<and> tlen' \<le> dlen \<and> length dst' = length dst"
proof (induction src dlen compress pos tlen slen dst rule: decompressLoop.induct)
  case (1 src dlen compress pos tlen slen dst)
  note res = "1.prems"(1)
  have step: "tlen < dlen \<Longrightarrow> even (tlen + 2) \<and> tlen + 2 \<le> dlen"
    using "1.prems"(2,3) by presburger
  show ?case
  proof (cases "slen > 0 \<and> tlen < dlen")
    case False
    with res have "tlen' = tlen" "dst' = dst"
      by (simp_all add: decompressLoop.simps [of src dlen compress pos tlen slen dst])
    with "1.prems" show ?thesis by simp
  next
    case run: True
    show ?thesis
    proof (cases "byteAt src pos = Some 0")
      case True
      with run res
      have "decompressLoop src dlen (\<not> compress) (pos + 1) tlen (slen - 1) dst = (tlen', dst')"
        by (simp add: decompressLoop.simps [of src dlen compress pos tlen slen dst])
      from "1.IH"(1) [OF run True this "1.prems"(2,3,4)] show ?thesis .
    next
      case nz: False
      show ?thesis
      proof (cases compress)
        case True
        with run nz res
        have "decompressLoop src dlen compress (pos + 1) (tlen + 2) (slen - 1)
                (dst[tlen := storeByte (byteAt src pos), tlen + 1 := 0]) = (tlen', dst')"
          by (simp add: decompressLoop.simps [of src dlen True pos tlen slen dst])
        from "1.IH"(2) [OF run nz True this] step run "1.prems"(3) show ?thesis by simp
      next
        case off: False
        show ?thesis
        proof (cases "slen \<ge> 2")
          case True
          with run nz off res
          have "decompressLoop src dlen compress (pos + 2) (tlen + 2) (slen - 2)
                  (dst[tlen := storeByte (byteAt src pos),
                       tlen + 1 := storeByte (byteAt src (pos + 1))]) = (tlen', dst')"
            by (simp add: decompressLoop.simps [of src dlen False pos tlen slen dst])
          from "1.IH"(3) [OF run nz off True this] step run "1.prems"(3) show ?thesis by simp
        next
          case False
          with run nz off res have "tlen' = tlen" "dst' = dst"
            by (simp_all add: decompressLoop.simps [of src dlen False pos tlen slen dst])
          with "1.prems" show ?thesis by simp
        qed
      qed
    qed
  qed
qed

text \<open>
  C10. \<open>decompressLoop\<close> is a total function (its termination is proved with the
  measure \<open>slen\<close>), so \<open>decompressUnicode\<close> returns on every source buffer and every
  \<open>slen\<close>, whether or not \<open>slen\<close> exceeds the length of the source. With the
  budget \<open>dlen = 2 * slen\<close> the returned buffer has an even length of at most
  \<open>2 * slen\<close>: whole UTF-16 code units, inside the allocated destination.
\<close>

theorem decompressUnicode_even_bounded: "even (length (decompressUnicode src slen (2 * slen))) \<and>
   length (decompressUnicode src slen (2 * slen)) \<le> 2 * slen"
proof -
  obtain tlen' dst' where r:
    "decompressLoop src (2 * slen) True 0 0 slen (replicate (slen * 2) 0) = (tlen', dst')"
    by (cases "decompressLoop src (2 * slen) True 0 0 slen (replicate (slen * 2) 0)")
  from decompressLoop_shape [OF r] have "even tlen'" "tlen' \<le> 2 * slen" "length dst' = slen * 2"
    by simp_all
  with r show ?thesis by (simp add: decompressUnicode_def)
qed


text \<open>
  The loop against the specification's walk: while \<open>pos + slen\<close> is the length of the
  source, the bytes written are those the walk emits on the rest of the source.
\<close>

lemma specDecompress_full: "dlen \<le> emitted \<Longrightarrow> specDecompress flag emitted dlen xs = []"
  by (cases xs) simp_all

lemma take_two_updates:
  assumes len: "Suc (Suc tlen) \<le> length dst"
  shows "take (Suc (Suc tlen)) (dst[tlen := x, Suc tlen := y]) = take tlen dst @ [x, y]"
proof -
  let ?d = "dst[tlen := x, Suc tlen := y]"
  have "take (Suc (Suc tlen)) ?d = take (Suc tlen) ?d @ [?d ! Suc tlen]"
    using len by (simp add: take_Suc_conv_app_nth)
  also have "take (Suc tlen) ?d = take tlen ?d @ [?d ! tlen]"
    using len by (simp add: take_Suc_conv_app_nth)
  finally show ?thesis using len by simp
qed

lemma byteAt_drop: "byteAt src pos = Some b \<Longrightarrow> drop pos src = b # drop (pos + 1) src"
  by (auto simp: byteAt_def Cons_nth_drop_Suc split: if_splits)

lemma byteAt_in: "pos < length src \<Longrightarrow> byteAt src pos = Some (src ! pos)"
  by (simp add: byteAt_def)

lemma decompressLoop_spec:
  "decompressLoop src dlen compress pos tlen slen dst = (tlen', dst') \<Longrightarrow>
   pos + slen = length src \<Longrightarrow> even tlen \<Longrightarrow> even dlen \<Longrightarrow> dlen \<le> length dst \<Longrightarrow>
   take tlen' dst' = take tlen dst @ specDecompress compress tlen dlen (drop pos src)"
proof (induction src dlen compress pos tlen slen dst rule: decompressLoop.induct)
  case (1 src dlen compress pos tlen slen dst)
  note res = "1.prems"(1) and inv = "1.prems"(2) and ev = "1.prems"(3,4) and room = "1.prems"(5)
  have step: "tlen < dlen \<Longrightarrow> even (tlen + 2) \<and> tlen + 2 \<le> dlen"
    using ev by presburger
  show ?case
  proof (cases "slen > 0 \<and> tlen < dlen")
    case False
    with res have same: "tlen' = tlen" "dst' = dst"
      by (simp_all add: decompressLoop.simps [of src dlen compress pos tlen slen dst])
    from False inv have "specDecompress compress tlen dlen (drop pos src) = []"
      by (cases "slen = 0") (simp_all add: specDecompress_full)
    with same show ?thesis by simp
  next
    case run: True
    with inv have inside: "pos < length src" by linarith
    then have cur: "byteAt src pos = Some (src ! pos)" by (rule byteAt_in)
    from cur have dr: "drop pos src = src ! pos # drop (pos + 1) src" by (rule byteAt_drop)
    from run have notfull: "\<not> dlen \<le> tlen" by simp
    show ?thesis
    proof (cases "byteAt src pos = Some 0")
      case True
      with run res
      have next_call:
        "decompressLoop src dlen (\<not> compress) (pos + 1) tlen (slen - 1) dst = (tlen', dst')"
        by (simp add: decompressLoop.simps [of src dlen compress pos tlen slen dst])
      have "pos + 1 + (slen - 1) = length src" using inv run by linarith
      from "1.IH"(1) [OF run True next_call this ev room]
      show ?thesis using True cur dr notfull by simp
    next
      case nz: False
      with cur have nz': "src ! pos \<noteq> 0" by simp
      show ?thesis
      proof (cases compress)
        case True
        with run nz res
        have next_call:
          "decompressLoop src dlen compress (pos + 1) (tlen + 2) (slen - 1)
             (dst[tlen := storeByte (byteAt src pos), tlen + 1 := 0]) = (tlen', dst')"
          by (simp add: decompressLoop.simps [of src dlen True pos tlen slen dst])
        have "pos + 1 + (slen - 1) = length src" using inv run by linarith
        from "1.IH"(2) [OF run nz True next_call this] step run ev room
        have "take tlen' dst' =
              take (tlen + 2) (dst[tlen := storeByte (byteAt src pos), tlen + 1 := 0]) @
              specDecompress compress (tlen + 2) dlen (drop (pos + 1) src)"
          by simp
        moreover have "tlen + 2 \<le> length dst" using step run room by simp
        ultimately show ?thesis
          using True nz' dr notfull cur by (simp add: take_two_updates storeByte_def)
      next
        case off: False
        show ?thesis
        proof (cases "slen \<ge> 2")
          case True
          with inv have inside2: "pos + 1 < length src" by linarith
          then have cur2: "byteAt src (pos + 1) = Some (src ! (pos + 1))" by (rule byteAt_in)
          from cur2 have dr2: "drop (pos + 1) src = src ! (pos + 1) # drop (pos + 2) src"
            using byteAt_drop [of src "pos + 1"] by simp
          from True run nz off res
          have next_call:
            "decompressLoop src dlen compress (pos + 2) (tlen + 2) (slen - 2)
               (dst[tlen := storeByte (byteAt src pos),
                    tlen + 1 := storeByte (byteAt src (pos + 1))]) = (tlen', dst')"
            by (simp add: decompressLoop.simps [of src dlen False pos tlen slen dst])
          have "pos + 2 + (slen - 2) = length src" using inv True by linarith
          from "1.IH"(3) [OF run nz off True next_call this] step run ev room
          have "take tlen' dst' =
                take (tlen + 2) (dst[tlen := storeByte (byteAt src pos),
                                     tlen + 1 := storeByte (byteAt src (pos + 1))]) @
                specDecompress compress (tlen + 2) dlen (drop (pos + 2) src)"
            by simp
          moreover have "tlen + 2 \<le> length dst" using step run room by simp
          ultimately show ?thesis
            using off nz' dr dr2 notfull cur cur2 by (simp add: take_two_updates storeByte_def)
        next
          case False
          with run nz off res have same: "tlen' = tlen" "dst' = dst"
            by (simp_all add: decompressLoop.simps [of src dlen False pos tlen slen dst])
          from False run inv have "length src \<le> pos + 1" by linarith
          then have "drop (pos + 1) src = []" by simp
          with same off nz' dr notfull show ?thesis by simp
        qed
      qed
    qed
  qed
qed

text \<open>
  C4. Run on a source of \<open>slen\<close> bytes with the budget \<open>2 * slen\<close> and the flag on,
  the decompressor returns exactly what the step rules of the specification emit.
\<close>

theorem decompressUnicode_follows_spec: "decompressUnicode src (length src) (2 * length src) =
    specDecompress True 0 (2 * length src) src"
proof -
  obtain tlen' dst' where r:
    "decompressLoop src (2 * length src) True 0 0 (length src)
       (replicate (length src * 2) 0) = (tlen', dst')"
    by (cases "decompressLoop src (2 * length src) True 0 0 (length src)
                 (replicate (length src * 2) 0)")
  from decompressLoop_spec [OF r] have
    "take tlen' dst' = specDecompress True 0 (2 * length src) src"
    by simp
  with r show ?thesis by (simp add: decompressUnicode_def)
qed


lemma decompressUnicode_toggle_example:
  "decompressUnicode [0x41, 0, 0x42, 0x43, 0, 0x44] 6 12 = [0x41, 0, 0x42, 0x43, 0x44, 0]"
  by code_simp

section \<open>Text decoding: the round trip\<close>

lemma specDecompress_ascii:
  "\<forall>b \<in> set bs. b \<noteq> 0 \<Longrightarrow> emitted + 2 * length bs \<le> dlen \<Longrightarrow>
   specDecompress True emitted dlen bs = concat (map (\<lambda>b. [b, 0]) bs)"
  by (induction bs arbitrary: emitted) auto

lemma decompressUnicode_ascii:
  assumes "\<forall>b \<in> set bs. b \<noteq> 0"
  shows "decompressUnicode bs (length bs) (2 * length bs) = concat (map (\<lambda>b. [b, 0]) bs)"
proof -
  obtain tlen' dst' where r:
    "decompressLoop bs (2 * length bs) True 0 0 (length bs)
       (replicate (length bs * 2) 0) = (tlen', dst')"
    by (cases "decompressLoop bs (2 * length bs) True 0 0 (length bs)
                 (replicate (length bs * 2) 0)")
  from decompressLoop_spec [OF r] have
    "take tlen' dst' = specDecompress True 0 (2 * length bs) bs"
    by simp
  also have "\<dots> = concat (map (\<lambda>b. [b, 0]) bs)"
    using assms by (intro specDecompress_ascii) simp_all
  finally show ?thesis using r by (simp add: decompressUnicode_def)
qed

lemma utf16le_widen: "utf16le (concat (map (\<lambda>b. [b, 0]) bs)) = map ucast bs"
  by (induction bs) simp_all

lemma ascii_byte:
  fixes c :: "16 word"
  assumes "c < 0x80"
  shows "ucast (ucast c :: byte) = c"
proof -
  from assms have "unat c < 128" by (simp add: word_less_nat_alt)
  then have "take_bit 8 (unat c) = unat c" by (simp add: take_bit_nat_eq_self)
  then have "unat (ucast (ucast c :: byte) :: 16 word) = unat c"
    by (simp add: unsigned_ucast_eq unsigned_take_bit_eq)
  then show ?thesis by (rule unsigned_word_eqI)
qed


lemma ascii_byte_nonzero:
  fixes c :: "16 word"
  assumes "c \<noteq> 0" "c < 0x80"
  shows "(ucast c :: byte) \<noteq> 0"
  using assms ascii_byte [of c] by auto

lemma subarray_tail:
  "subarray (a # b # bs) (Some 2) (Some (int (length (a # b # bs)))) = bs"
  by (simp add: subarray_def clampIndex_def)

text \<open>
  C5. A string \<open>s\<close> of ASCII code units none of which is NUL (a NUL byte would be a
  toggle) is encoded as \<open>0xFF 0xFE\<close> followed by its bytes; the JET4 text path
  decodes that buffer to \<open>s\<close>. This holds for every length, so also up to 65535.
\<close>

theorem parseText_ascii_roundtrip:
  assumes "version cfg = JETDB4" and "\<forall>c \<in> set s. c \<noteq> 0 \<and> c < 0x80"
  shows "parseText cfg (0xff # 0xfe # map ucast s) = s"
proof -
  let ?bs = "map ucast s :: byte list"
  have nz: "\<forall>b \<in> set ?bs. b \<noteq> 0"
    using assms(2) by (auto simp: ascii_byte_nonzero)
  have "utf16le (decompressUnicode ?bs (length ?bs) (2 * length ?bs)) = map ucast ?bs"
    by (simp only: decompressUnicode_ascii [OF nz] utf16le_widen)
  moreover have "map ucast ?bs = s"
    using assms(2) by (simp add: map_idI ascii_byte)
  ultimately show ?thesis
    using assms(1) subarray_tail [of "0xff" "0xfe" ?bs]
    by (simp add: parseText_def byteAt_def mult.commute)
qed

theorem parseText_ascii_roundtrip_witness:
  "version jet4 = JETDB4 \<and>
   (0x41 :: 16 word) \<noteq> 0 \<and> (0x41 :: 16 word) < 0x80 \<and>
   (0x62 :: 16 word) \<noteq> 0 \<and> (0x62 :: 16 word) < 0x80 \<and>
   parseText jet4 [0xff, 0xfe, 0x41, 0x62] = [0x41, 0x62]"
  using parseText_ascii_roundtrip [of jet4 "[0x41, 0x62]"]
  by (simp add: jet4_def)

section \<open>Error values\<close>

lemma ebind_Inr_iff: "(ebind m f = Inr y) = (\<exists>x. m = Inr x \<and> f x = Inr y)"
  by (cases m) (simp_all add: ebind_def)

lemma ebind_Inr [simp]: "ebind (Inr x) f = f x"
  by (simp add: ebind_def)

lemma ebind_Inl [simp]: "ebind (Inl e) f = Inl e"
  by (simp add: ebind_def)

section \<open>Evaluating the sample inputs\<close>

text \<open>
  The sample pages are evaluated by rewriting with the definitions; an array of the
  parser with a numeral length is unfolded one field at a time.
\<close>

lemma readArray_numeral:
  "readArray n buf off (numeral k) =
     ebind (readLE n buf (Some off)) (\<lambda>x.
     ebind (readArray n buf (off + int n) (pred_numeral k)) (\<lambda>xs. Inr (x # xs)))"
  by (simp add: numeral_eq_Suc)

lemmas eval_simps = readUInt8_def readUInt16LE_def readUInt32LE_def readBigUInt64LE_def
  readLE_def inRange_def ebind_def readArray_numeral Let_def

lemmas column_simps = readColumn_def columnSlice_def elemAt_def parseColumn_def
  parseText_def byteAt_def subarray_def clampIndex_def jsAdd_def

lemma bitsOf_1: "bitsOf 1 = [1, 0, 0, 0, 0, 0, 0, 0]"
  by code_simp

lemma bitsOf_Suc_0: "bitsOf (Suc 0) = [1, 0, 0, 0, 0, 0, 0, 0]"
  using bitsOf_1 by simp

lemma bitsOf_2: "bitsOf 2 = [0, 1, 0, 0, 0, 0, 0, 0]"
  by code_simp

lemma decompress_hi: "decompressUnicode [0x68, 0x69] (Suc (Suc 0)) 4 = [0x68, 0, 0x69, 0]"
  by code_simp

lemma sample_slots: "parseOffsets jet4 samplePage = Inr sampleSlots"
  by (simp add: parseOffsets_def eval_simps headerSize_def jet4_def samplePage_def
      rowOffset_def sampleSlots_def)

lemma sample_colA:
  "readColumn jet4 [] samplePage sampleTdef (sampleSlots ! 1) 2 [11, 15] (bitsOf 2) colA 0
     = Inr cdA"
  by (simp add: column_simps eval_simps jet4_def samplePage_def sampleTdef_def
      sampleSlots_def colA_def cdA_def bitsOf_2)

lemma sample_colB:
  "readColumn jet4 [] samplePage sampleTdef (sampleSlots ! 1) 2 [11, 15] (bitsOf 2) colB 1
     = Inr cdB"
  by (simp add: column_simps eval_simps jet4_def samplePage_def sampleTdef_def
      sampleSlots_def colB_def cdB_def bitsOf_2 decompress_hi)

lemma sample_colC:
  "readColumn jet4 [] samplePage sampleTdef (sampleSlots ! 1) 2 [11, 15] (bitsOf 2) colC 2
     = Inr cdC"
  by (simp add: column_simps eval_simps jet4_def samplePage_def sampleTdef_def
      sampleSlots_def colC_def cdC_def bitsOf_2)

lemma sample_colD:
  "readColumn jet4 [] samplePage sampleTdef (sampleSlots ! 1) 2 [11, 15] (bitsOf 2) colD 3
     = Inr cdD"
  by (simp add: column_simps eval_simps jet4_def samplePage_def sampleTdef_def
      sampleSlots_def colD_def cdD_def bitsOf_2)

lemma sample_layout:
  "rowLayout jet4 samplePage (sampleSlots ! 1) = Inr (2, [11, 15], bitsOf 2)"
  by (simp add: rowLayout_def eval_simps jet4_def samplePage_def sampleSlots_def)

lemma sample_row:
  "readRow jet4 [] samplePage sampleTdef (sampleSlots ! 1) = Inr [cdA, cdB, cdC, cdD]"
proof -
  have "readRow jet4 [] samplePage sampleTdef (sampleSlots ! 1) =
        readColumns jet4 [] samplePage sampleTdef (sampleSlots ! 1) 2 [11, 15] (bitsOf 2) 0
          [colA, colB, colC, colD]"
    unfolding readRow_def sample_layout by (simp add: sampleTdef_def del: readColumns.simps)
  also have "\<dots> = Inr [cdA, cdB, cdC, cdD]"
    using sample_colA sample_colB sample_colC sample_colD
    by (simp add: numeral_2_eq_2 numeral_3_eq_3)
  finally show ?thesis .
qed

lemma sample_rows:
  "readRowsForPage jet4 [] samplePage sampleTdef
     = Inr [\<lparr>columns = [cdA, cdB, cdC, cdD], row_number = 0\<rparr>]"
  using sample_row by (simp add: readRowsForPage_def sample_slots ebind_def sampleSlots_def)


section \<open>Row-offset table: slots, flags and deleted rows\<close>

lemma readArray_Inr:
  "readArray n buf off k = Inr xs \<Longrightarrow>
   length xs = k \<and> (\<forall>i<k. readLE n buf (Some (off + int (n * i))) = Inr (xs ! i))"
proof (induction k arbitrary: off xs)
  case 0
  then show ?case by simp
next
  case (Suc k)
  from Suc.prems obtain x rest where
    hd: "readLE n buf (Some off) = Inr x" and
    tl: "readArray n buf (off + int n) k = Inr rest" and
    xs: "xs = x # rest"
    by (auto simp: ebind_Inr_iff)
  from Suc.IH [OF tl] have len: "length rest = k"
    and nth: "\<And>i. i < k \<Longrightarrow> readLE n buf (Some (off + int n + int (n * i))) = Inr (rest ! i)"
    by simp_all
  have "\<forall>i<Suc k. readLE n buf (Some (off + int (n * i))) = Inr (xs ! i)"
  proof (intro allI impI)
    fix i assume "i < Suc k"
    show "readLE n buf (Some (off + int (n * i))) = Inr (xs ! i)"
    proof (cases i)
      case 0
      with hd xs show ?thesis by simp
    next
      case (Suc j)
      with \<open>i < Suc k\<close> have "j < k" by simp
      from nth [OF this] Suc xs show ?thesis by (simp add: algebra_simps)
    qed
  qed
  with len xs show ?case by simp
qed

lemma rowsLoop_Inr:
  "rowsLoop cfg file buf tdef idx slots = Inr rws \<Longrightarrow>
   length rws = length slots \<and>
   (\<forall>j<length slots. readRow cfg file buf tdef (slots ! j) = Inr (columns (rws ! j)) \<and>
        row_number (rws ! j) = idx + j)"
proof (induction slots arbitrary: idx rws)
  case Nil
  then show ?case by simp
next
  case (Cons slot rest)
  from Cons.prems obtain cd more where
    hd: "readRow cfg file buf tdef slot = Inr cd" and
    tl: "rowsLoop cfg file buf tdef (idx + 1) rest = Inr more" and
    rws: "rws = \<lparr>columns = cd, row_number = idx\<rparr> # more"
    by (auto simp: ebind_Inr_iff)
  from Cons.IH [OF tl] have len: "length more = length rest"
    and nth: "\<And>j. j < length rest \<Longrightarrow>
      readRow cfg file buf tdef (rest ! j) = Inr (columns (more ! j)) \<and>
      row_number (more ! j) = idx + 1 + j"
    by simp_all
  have "\<forall>j<length (slot # rest).
          readRow cfg file buf tdef ((slot # rest) ! j) = Inr (columns (rws ! j)) \<and>
          row_number (rws ! j) = idx + j"
  proof (intro allI impI)
    fix j assume j: "j < length (slot # rest)"
    show "readRow cfg file buf tdef ((slot # rest) ! j) = Inr (columns (rws ! j)) \<and>
          row_number (rws ! j) = idx + j"
    proof (cases j)
      case 0
      with hd rws show ?thesis by simp
    next
      case (Suc k)
      with j have "k < length rest" by simp
      from nth [OF this] Suc rws show ?thesis by simp
    qed
  qed
  with len rws show ?case by simp
qed

lemma parseOffsets_Inr:
  assumes "parseOffsets cfg buf = Inr slots"
  shows "readUInt8 buf (Some 0) = Inr 1 \<and>
    (\<exists>offsets.
       readUInt16LE buf (Some (int (headerSize cfg))) = Inr (length offsets) \<and>
       readArray 2 buf (int (headerSize cfg) + 2) (length offsets) = Inr offsets \<and>
       slots = map (rowOffset cfg offsets) [0..<length offsets])"
proof -
  from assms obtain pagecode where
    pc: "readUInt8 buf (Some 0) = Inr pagecode" and
    rest: "(if pagecode \<noteq> 1 then Inl AssertionError
       else
     ebind (readUInt16LE buf (Some 2)) (\<lambda>freeSpaceInPage.
     ebind (readUInt32LE buf (Some 4)) (\<lambda>tdefPage.
     ebind (readUInt16LE buf (Some (int (headerSize cfg)))) (\<lambda>numRows.
     ebind (readArray 2 buf (int (headerSize cfg) + 2) numRows) (\<lambda>offsets.
       Inr (map (rowOffset cfg offsets) [0..<length offsets])))))) = Inr slots"
    unfolding parseOffsets_def ebind_Inr_iff by blast
  from rest have one: "pagecode = 1" by (cases "pagecode = 1") simp_all
  with rest obtain numRows offsets where
    nr: "readUInt16LE buf (Some (int (headerSize cfg))) = Inr numRows" and
    arr: "readArray 2 buf (int (headerSize cfg) + 2) numRows = Inr offsets" and
    sl: "slots = map (rowOffset cfg offsets) [0..<length offsets]"
    by (auto simp: ebind_Inr_iff)
  from readArray_Inr [OF arr] have "length offsets = numRows" by simp
  with pc one nr arr sl show ?thesis by auto
qed

text \<open>
  What an accepted page gives: the leading byte is \<open>0x01\<close>, the table has
  \<open>numRows\<close> slots, and slot \<open>i\<close> holds the low 13 bits and the two flags of the
  raw offset \<open>offsets[i]\<close> (the \<open>uint16\<close> at \<open>header + 2 + 2 * i\<close>), with the
  upper bound taken from the page size or from the raw offset before it. The rows of the
  page are those of the slots that are not flagged deleted, in order.
\<close>

lemma parseOffsets_slots:
  assumes po: "parseOffsets cfg buf = Inr slots"
  shows "readUInt8 buf (Some 0) = Inr 1 \<and>
    (\<exists>offsets.
       readUInt16LE buf (Some (int (headerSize cfg))) = Inr (length offsets) \<and>
       length slots = length offsets \<and>
       (\<forall>i<length offsets.
          readUInt16LE buf (Some (int (headerSize cfg + 2 + 2 * i))) = Inr (offsets ! i) \<and>
          offset (slots ! i) = offsets ! i AND 0x1FFF \<and>
          delFlag (slots ! i) = (offsets ! i AND 0x4000 \<noteq> 0) \<and>
          (lookupFlag (slots ! i) \<noteq> 0) = (offsets ! i AND 0x8000 \<noteq> 0) \<and>
          slot_next (slots ! i) =
            (if i = 0 then pageSize cfg else offsets ! (i - 1) AND 0x1FFF))) \<and>
    (\<forall>rws. readRowsForPage cfg file buf tdef = Inr rws \<longrightarrow>
       length rws = length (filter (\<lambda>p. \<not> delFlag p) slots) \<and>
       (\<forall>j<length rws.
          readRow cfg file buf tdef (filter (\<lambda>p. \<not> delFlag p) slots ! j)
            = Inr (columns (rws ! j)) \<and>
          row_number (rws ! j) = j))"
proof -
  from parseOffsets_Inr [OF po] obtain offsets where
    pc: "readUInt8 buf (Some 0) = Inr 1" and
    nr: "readUInt16LE buf (Some (int (headerSize cfg))) = Inr (length offsets)" and
    arr: "readArray 2 buf (int (headerSize cfg) + 2) (length offsets) = Inr offsets" and
    sl: "slots = map (rowOffset cfg offsets) [0..<length offsets]"
    by blast
  have fields: "\<forall>i<length offsets.
          readUInt16LE buf (Some (int (headerSize cfg + 2 + 2 * i))) = Inr (offsets ! i) \<and>
          offset (slots ! i) = offsets ! i AND 0x1FFF \<and>
          delFlag (slots ! i) = (offsets ! i AND 0x4000 \<noteq> 0) \<and>
          (lookupFlag (slots ! i) \<noteq> 0) = (offsets ! i AND 0x8000 \<noteq> 0) \<and>
          slot_next (slots ! i) =
            (if i = 0 then pageSize cfg else offsets ! (i - 1) AND 0x1FFF)"
  proof (intro allI impI)
    fix i assume i: "i < length offsets"
    from readArray_Inr [OF arr] i
    have "readLE 2 buf (Some (int (headerSize cfg) + 2 + int (2 * i))) = Inr (offsets ! i)"
      by simp
    moreover have "int (headerSize cfg) + 2 + int (2 * i) = int (headerSize cfg + 2 + 2 * i)"
      by simp
    ultimately
    have rd: "readUInt16LE buf (Some (int (headerSize cfg + 2 + 2 * i))) = Inr (offsets ! i)"
      by (simp only: readUInt16LE_def)
    from i sl have "slots ! i = rowOffset cfg offsets i" by simp
    with rd show "readUInt16LE buf (Some (int (headerSize cfg + 2 + 2 * i))) = Inr (offsets ! i) \<and>
          offset (slots ! i) = offsets ! i AND 0x1FFF \<and>
          delFlag (slots ! i) = (offsets ! i AND 0x4000 \<noteq> 0) \<and>
          (lookupFlag (slots ! i) \<noteq> 0) = (offsets ! i AND 0x8000 \<noteq> 0) \<and>
          slot_next (slots ! i) =
            (if i = 0 then pageSize cfg else offsets ! (i - 1) AND 0x1FFF)"
      by (simp add: rowOffset_def Let_def)
  qed
  have rows_part: "\<forall>rws. readRowsForPage cfg file buf tdef = Inr rws \<longrightarrow>
       length rws = length (filter (\<lambda>p. \<not> delFlag p) slots) \<and>
       (\<forall>j<length rws.
          readRow cfg file buf tdef (filter (\<lambda>p. \<not> delFlag p) slots ! j)
            = Inr (columns (rws ! j)) \<and>
          row_number (rws ! j) = j)"
  proof (intro allI impI)
    fix rws assume "readRowsForPage cfg file buf tdef = Inr rws"
    with po have "rowsLoop cfg file buf tdef 0 (filter (\<lambda>p. \<not> delFlag p) slots) = Inr rws"
      by (simp add: readRowsForPage_def ebind_def)
    from rowsLoop_Inr [OF this]
    show "length rws = length (filter (\<lambda>p. \<not> delFlag p) slots) \<and>
       (\<forall>j<length rws.
          readRow cfg file buf tdef (filter (\<lambda>p. \<not> delFlag p) slots ! j)
            = Inr (columns (rws ! j)) \<and>
          row_number (rws ! j) = j)"
      by simp
  qed
  from sl have "length slots = length offsets" by simp
  with pc nr fields rows_part show ?thesis by blast
qed


lemma readLE_total: "inRange buf off n \<Longrightarrow> \<exists>x. readLE n buf (Some off) = Inr x"
  by (simp add: readLE_def)

lemma readArray_total:
  "0 \<le> off \<Longrightarrow> off + int (n * k) \<le> int (length buf) \<Longrightarrow>
   \<exists>xs. readArray n buf off k = Inr xs"
proof (induction k arbitrary: off)
  case 0
  show ?case by simp
next
  case (Suc k)
  from Suc.prems have le: "off + int n + int (n * k) \<le> int (length buf)"
    by (simp add: algebra_simps)
  then have "off + int n \<le> int (length buf)" by linarith
  with Suc.prems have "inRange buf off n" by (simp add: inRange_def)
  then obtain x where x: "readLE n buf (Some off) = Inr x"
    using readLE_total by blast
  from Suc.IH [of "off + int n"] Suc.prems le
  obtain xs where "readArray n buf (off + int n) k = Inr xs" by auto
  with x show ?case by simp
qed

text \<open>
  C2. A data page is a buffer whose leading byte is \<open>0x01\<close> and which holds the
  \<open>numRows\<close> raw offsets that its header announces. On every such page
  \<open>parseOffsets\<close> returns a table of \<open>numRows\<close> slots, and slot \<open>i\<close> is derived
  from the raw offset \<open>offsets[i]\<close> (the \<open>uint16\<close> at \<open>header + 2 + 2 * i\<close>):
  \<open>offset\<close> is \<open>offsets[i] & 0x1FFF\<close>, \<open>isDeleted\<close> is
  \<open>(offsets[i] & 0x4000) \<noteq> 0\<close>, \<open>isLookup\<close> is \<open>(offsets[i] & 0x8000) \<noteq> 0\<close>,
  and the exclusive upper bound is the page size for \<open>i = 0\<close> and
  \<open>offsets[i - 1] & 0x1FFF\<close> otherwise. The rows of the page are the rows of the slots
  that are not flagged deleted, in order; each is decoded by \<open>readRow\<close> from its own
  slot of the unfiltered table, so a deleted slot changes neither the bytes nor the
  bounds of the others. \<open>row_number\<close> counts the surviving slots.
\<close>

theorem data_page_slots:
  assumes lead: "readUInt8 buf (Some 0) = Inr 1"
    and nr: "readUInt16LE buf (Some (int (headerSize cfg))) = Inr numRows"
    and fit: "headerSize cfg + 2 + 2 * numRows \<le> length buf"
  shows "\<exists>slots offsets.
    parseOffsets cfg buf = Inr slots \<and> length slots = numRows \<and> length offsets = numRows \<and>
    (\<forall>i<numRows.
       readUInt16LE buf (Some (int (headerSize cfg + 2 + 2 * i))) = Inr (offsets ! i) \<and>
       offset (slots ! i) = offsets ! i AND 0x1FFF \<and>
       delFlag (slots ! i) = (offsets ! i AND 0x4000 \<noteq> 0) \<and>
       (lookupFlag (slots ! i) \<noteq> 0) = (offsets ! i AND 0x8000 \<noteq> 0) \<and>
       slot_next (slots ! i) =
         (if i = 0 then pageSize cfg else offsets ! (i - 1) AND 0x1FFF)) \<and>
    (\<forall>rws. readRowsForPage cfg file buf tdef = Inr rws \<longrightarrow>
       length rws = length (filter (\<lambda>p. \<not> delFlag p) slots) \<and>
       (\<forall>j<length rws.
          readRow cfg file buf tdef (filter (\<lambda>p. \<not> delFlag p) slots ! j)
            = Inr (columns (rws ! j)) \<and>
          row_number (rws ! j) = j))"
proof -
  have hdr: "8 \<le> headerSize cfg" by (simp add: headerSize_def)
  with fit have "inRange buf 2 2" "inRange buf 4 4" by (simp_all add: inRange_def)
  then obtain freeSpaceInPage tdefPage where
    fs: "readUInt16LE buf (Some 2) = Inr freeSpaceInPage" and
    tp: "readUInt32LE buf (Some 4) = Inr tdefPage"
    unfolding readUInt16LE_def readUInt32LE_def using readLE_total by blast
  from fit have "int (headerSize cfg) + 2 + int (2 * numRows) \<le> int (length buf)" by simp
  then obtain offsets where
    arr: "readArray 2 buf (int (headerSize cfg) + 2) numRows = Inr offsets"
    using readArray_total [of "int (headerSize cfg) + 2" 2 numRows buf] by auto
  have po: "parseOffsets cfg buf = Inr (map (rowOffset cfg offsets) [0..<length offsets])"
    by (simp add: parseOffsets_def lead fs tp nr arr)
  from parseOffsets_slots [OF po]
  obtain offsets' where
    len': "readUInt16LE buf (Some (int (headerSize cfg))) = Inr (length offsets')" and
    rest: "length (map (rowOffset cfg offsets) [0..<length offsets]) = length offsets'"
      "\<forall>i<length offsets'.
         readUInt16LE buf (Some (int (headerSize cfg + 2 + 2 * i))) = Inr (offsets' ! i) \<and>
         offset (map (rowOffset cfg offsets) [0..<length offsets] ! i)
           = offsets' ! i AND 0x1FFF \<and>
         delFlag (map (rowOffset cfg offsets) [0..<length offsets] ! i)
           = (offsets' ! i AND 0x4000 \<noteq> 0) \<and>
         (lookupFlag (map (rowOffset cfg offsets) [0..<length offsets] ! i) \<noteq> 0)
           = (offsets' ! i AND 0x8000 \<noteq> 0) \<and>
         slot_next (map (rowOffset cfg offsets) [0..<length offsets] ! i) =
           (if i = 0 then pageSize cfg else offsets' ! (i - 1) AND 0x1FFF)"
      "\<forall>rws. readRowsForPage cfg file buf tdef = Inr rws \<longrightarrow>
         length rws = length (filter (\<lambda>p. \<not> delFlag p)
                        (map (rowOffset cfg offsets) [0..<length offsets])) \<and>
         (\<forall>j<length rws.
            readRow cfg file buf tdef
              (filter (\<lambda>p. \<not> delFlag p) (map (rowOffset cfg offsets) [0..<length offsets]) ! j)
              = Inr (columns (rws ! j)) \<and>
            row_number (rws ! j) = j)"
    by blast
  from len' nr have n: "length offsets' = numRows" by simp
  show ?thesis
    apply (rule exI [of _ "map (rowOffset cfg offsets) [0..<length offsets]"])
    apply (rule exI [of _ offsets'])
    using po rest n by simp
qed

theorem data_page_slots_witness:
  "readUInt8 samplePage (Some 0) = Inr 1 \<and>
   readUInt16LE samplePage (Some (int (headerSize jet4))) = Inr 2 \<and>
   headerSize jet4 + 2 + 2 * 2 \<le> length samplePage \<and>
   parseOffsets jet4 samplePage = Inr sampleSlots \<and>
   delFlag (sampleSlots ! 0) \<and> \<not> delFlag (sampleSlots ! 1) \<and>
   slot_next (sampleSlots ! 1) = 54 \<and>
   readRowsForPage jet4 [] samplePage sampleTdef
     = Inr [\<lparr>columns = [cdA, cdB, cdC, cdD], row_number = 0\<rparr>] \<and>
   readRow jet4 [] samplePage sampleTdef (filter (\<lambda>p. \<not> delFlag p) sampleSlots ! 0)
     = Inr [cdA, cdB, cdC, cdD]"
proof -
  have lead: "readUInt8 samplePage (Some 0) = Inr 1"
    by (simp add: eval_simps samplePage_def)
  have nr: "readUInt16LE samplePage (Some (int (headerSize jet4))) = Inr 2"
    by (simp add: eval_simps samplePage_def headerSize_def jet4_def)
  have fit: "headerSize jet4 + 2 + 2 * 2 \<le> length samplePage"
    by (simp add: samplePage_def headerSize_def jet4_def)
  from data_page_slots [OF lead nr fit, of "[]" sampleTdef] sample_slots sample_rows
  have "readRow jet4 [] samplePage sampleTdef (filter (\<lambda>p. \<not> delFlag p) sampleSlots ! 0)
          = Inr [cdA, cdB, cdC, cdD]"
    by auto
  with lead nr fit sample_slots sample_rows show ?thesis
    by (simp add: sampleSlots_def)
qed

section \<open>Columns of a row\<close>

text \<open>
  The null mask is indexed by bits, lowest bit of the first byte first: entry \<open>k\<close> is
  bit \<open>k mod 8\<close> of byte \<open>k div 8\<close>.
\<close>

lemma length_bitsOf: "length (bitsOf b) = 8"
  by (simp add: bitsOf_def)

lemma nth_bitsOf: "i < 8 \<Longrightarrow> bitsOf b ! i = (if bit b i then 1 else 0)"
  by (simp add: bitsOf_def)

lemma nullMask_bits:
  "length (concat (map bitsOf bs)) = 8 * length bs \<and>
   (\<forall>k < 8 * length bs.
      concat (map bitsOf bs) ! k = (if bit (bs ! (k div 8)) (k mod 8) then 1 else 0))"
proof (induction bs)
  case Nil
  show ?case by simp
next
  case (Cons b bs)
  then have len: "length (concat (map bitsOf bs)) = 8 * length bs"
    and nth: "\<And>k. k < 8 * length bs \<Longrightarrow>
      concat (map bitsOf bs) ! k = (if bit (bs ! (k div 8)) (k mod 8) then 1 else 0)"
    by simp_all
  have "\<forall>k < 8 * length (b # bs).
      concat (map bitsOf (b # bs)) ! k
        = (if bit ((b # bs) ! (k div 8)) (k mod 8) then 1 else 0)"
  proof (intro allI impI)
    fix k assume k: "k < 8 * length (b # bs)"
    show "concat (map bitsOf (b # bs)) ! k
            = (if bit ((b # bs) ! (k div 8)) (k mod 8) then 1 else 0)"
    proof (cases "k < 8")
      case True
      then show ?thesis by (simp add: nth_append length_bitsOf nth_bitsOf)
    next
      case False
      then obtain m where m: "k = 8 + m" using le_Suc_ex [of 8 k] by auto
      with k have "m < 8 * length bs" by simp
      moreover have "(8 + m) div 8 = Suc (m div 8)" "(8 + m) mod 8 = m mod 8"
        by simp_all
      ultimately show ?thesis
        using nth [of m] m by (simp add: nth_append length_bitsOf)
    qed
  qed
  with len show ?case by (simp add: length_bitsOf)
qed

text \<open>
  A row whose layout is read has at least one variable column and at least one mask byte:
  the variable-offset table has two entries or more and the null mask eight or more.
\<close>

lemma rowLayout_counts:
  assumes "rowLayout cfg buf slot = Inr (vls, vo, nm)"
  shows "2 \<le> length vo \<and> 8 \<le> length nm"
proof -
  from assms obtain columnsInRow varLen table endOffset maskBytes where
    vl: "varLen \<noteq> 0" and nms: "(columnsInRow + 7) div 8 \<noteq> 0"
    and tb: "readArray vls buf
               (int (slot_next slot) - int vls - int ((columnsInRow + 7) div 8)
                  - int (varLen * vls)) varLen = Inr table"
    and mb: "readArray 1 buf (int (slot_next slot) - int ((columnsInRow + 7) div 8))
               ((columnsInRow + 7) div 8) = Inr maskBytes"
    and vo: "vo = rev table @ [endOffset]"
    and nm: "nm = concat (map bitsOf maskBytes)"
    by (auto simp: rowLayout_def Let_def ebind_Inr_iff split: if_splits)
  from readArray_Inr [OF tb] vl have "1 \<le> length table" by simp
  moreover from readArray_Inr [OF mb] nms have "1 \<le> length maskBytes" by simp
  ultimately show ?thesis
    using vo nm nullMask_bits [of maskBytes] by simp
qed

text \<open>
  The two refusals: a row without variable columns, and a row whose column count is 0.
\<close>

lemma rowLayout_zero_varLen:
  assumes "vls = (if version cfg = JETDB3 then 1 else 2)"
    and "readLE vls buf (Some (int (offset slot))) = Inr columnsInRow"
    and "readLE vls buf
           (Some (int (slot_next slot) - int vls - int ((columnsInRow + 7) div 8))) = Inr 0"
  shows "rowLayout cfg buf slot = Inl ArrayLengthError"
  using assms by (simp add: rowLayout_def Let_def)

lemma rowLayout_zero_columns:
  assumes "vls = (if version cfg = JETDB3 then 1 else 2)"
    and "readLE vls buf (Some (int (offset slot))) = Inr 0"
  shows "\<exists>e. rowLayout cfg buf slot = Inl e"
proof (cases "rowLayout cfg buf slot")
  case (Inl e)
  then show ?thesis by blast
next
  case (Inr r)
  with assms show ?thesis
    by (auto simp: rowLayout_def Let_def ebind_Inr_iff split: if_splits)
qed

text \<open>A decoded row has one entry per column descriptor, each made by \<open>readColumn\<close>.\<close>

lemma readColumns_Inr:
  "readColumns cfg file buf tdef slot vls vo nm idx cs = Inr cds \<Longrightarrow>
   length cds = length cs \<and>
   (\<forall>j<length cs. readColumn cfg file buf tdef slot vls vo nm (cs ! j) (idx + j) = Inr (cds ! j))"
proof (induction cs arbitrary: idx cds)
  case Nil
  then show ?case by simp
next
  case (Cons c cs)
  from Cons.prems obtain cd more where
    hd: "readColumn cfg file buf tdef slot vls vo nm c idx = Inr cd" and
    tl: "readColumns cfg file buf tdef slot vls vo nm (idx + 1) cs = Inr more" and
    cds: "cds = cd # more"
    by (auto simp: ebind_Inr_iff)
  from Cons.IH [OF tl] have len: "length more = length cs"
    and nth: "\<And>j. j < length cs \<Longrightarrow>
      readColumn cfg file buf tdef slot vls vo nm (cs ! j) (idx + 1 + j) = Inr (more ! j)"
    by simp_all
  have "\<forall>j<length (c # cs).
          readColumn cfg file buf tdef slot vls vo nm ((c # cs) ! j) (idx + j) = Inr (cds ! j)"
  proof (intro allI impI)
    fix j assume j: "j < length (c # cs)"
    show "readColumn cfg file buf tdef slot vls vo nm ((c # cs) ! j) (idx + j) = Inr (cds ! j)"
    proof (cases j)
      case 0
      with hd cds show ?thesis by simp
    next
      case (Suc k)
      with j have "k < length cs" by simp
      from nth [OF this] Suc cds show ?thesis by simp
    qed
  qed
  with len cds show ?case by simp
qed

lemma readRow_Inr:
  assumes "rowLayout cfg buf slot = Inr (vls, vo, nm)"
    and "readRow cfg file buf tdef slot = Inr cds"
  shows "length cds = length (cols tdef) \<and>
    (\<forall>j<length (cols tdef).
       readColumn cfg file buf tdef slot vls vo nm (cols tdef ! j) j = Inr (cds ! j))"
proof -
  from assms have "readColumns cfg file buf tdef slot vls vo nm 0 (cols tdef) = Inr cds"
    by (simp add: readRow_def)
  from readColumns_Inr [OF this] show ?thesis by simp
qed

lemma parseMemo_not_null: "parseMemo cfg file buf start = Inr v \<Longrightarrow> v \<noteq> VNull"
  by (auto simp: parseMemo_def ebind_Inr_iff Let_def split: if_splits)

lemma parseColumn_not_null:
  "parseColumn cfg file buf column start len = Inr v \<Longrightarrow> v \<noteq> VNull"
  by (auto simp: parseColumn_def ebind_Inr_iff parseMemo_not_null split: if_splits)

text \<open>One column with the variable layout, for any variable-offset table and null mask.\<close>

lemma readColumn_variable:
  assumes "bitmask column AND 1 \<noteq> 1"
  shows "let start = map_option (\<lambda>v. int (offset slot + v)) (elemAt varOffsets (offsetV column));
             len = (if offsetV column + 1 < length varOffsets
                    then int (varOffsets ! (offsetV column + 1)) - int (varOffsets ! offsetV column)
                    else 0)
         in columnSlice slot varLenSize varOffsets column = (start, len) \<and>
            (\<forall>cd. readColumn cfg file buf tdef slot varLenSize varOffsets nullMask column idx = Inr cd
               \<longrightarrow> cd_rawValue cd = subarray buf start (jsAdd start len) \<and>
                   (len = 0 \<longrightarrow>
                      cd_value cd = (if elemAt nullMask (col_number column) = Some 0
                                     then VNull else VString [])) \<and>
                   (0 < len \<longrightarrow>
                      parseColumn cfg file buf column start len = Inr (cd_value cd)))"
  using assms
  by (auto simp: Let_def columnSlice_def readColumn_def ebind_Inr_iff split: option.splits if_splits)

text \<open>
  C3. In a decoded row, for a column descriptor with bit 0 of the bitmask clear, the
  slice starts at \<open>offset + varOffsets[offsetV]\<close> (\<open>NaN\<close> when \<open>offsetV\<close> is
  outside the table) and its length is \<open>varOffsets[offsetV + 1] - varOffsets[offsetV]\<close>
  when \<open>offsetV + 1\<close> is inside the table and 0 otherwise: these are the bounds of the
  raw value and the arguments of \<open>parseColumn\<close>. When the length is 0 the value is
  \<open>null\<close> if the null-mask entry of the column is 0 and the empty string otherwise.
\<close>

theorem variable_column_slice:
  assumes lay: "rowLayout cfg buf slot = Inr (varLenSize, varOffsets, nullMask)"
    and row: "readRow cfg file buf tdef slot = Inr cds"
    and j: "j < length (cols tdef)"
    and var: "bitmask (cols tdef ! j) AND 1 \<noteq> 1"
  shows "let column = cols tdef ! j;
             start = map_option (\<lambda>v. int (offset slot + v)) (elemAt varOffsets (offsetV column));
             len = (if offsetV column + 1 < length varOffsets
                    then int (varOffsets ! (offsetV column + 1)) - int (varOffsets ! offsetV column)
                    else 0)
         in columnSlice slot varLenSize varOffsets column = (start, len) \<and>
            cd_rawValue (cds ! j) = subarray buf start (jsAdd start len) \<and>
            (len = 0 \<longrightarrow>
               cd_value (cds ! j) = (if elemAt nullMask (col_number column) = Some 0
                                     then VNull else VString [])) \<and>
            (0 < len \<longrightarrow>
               parseColumn cfg file buf column start len = Inr (cd_value (cds ! j)))"
proof -
  from readRow_Inr [OF lay row] j
  have "readColumn cfg file buf tdef slot varLenSize varOffsets nullMask (cols tdef ! j) j
          = Inr (cds ! j)"
    by simp
  with readColumn_variable [OF var, of slot varOffsets varLenSize cfg "file" buf tdef nullMask j]
  show ?thesis by (simp add: Let_def)
qed

theorem variable_column_slice_witness:
  "rowLayout jet4 samplePage (sampleSlots ! 1) = Inr (2, [11, 15], bitsOf 2) \<and>
   readRow jet4 [] samplePage sampleTdef (sampleSlots ! 1) = Inr [cdA, cdB, cdC, cdD] \<and>
   1 < length (cols sampleTdef) \<and> bitmask (cols sampleTdef ! 1) AND 1 \<noteq> 1 \<and>
   3 < length (cols sampleTdef) \<and> bitmask (cols sampleTdef ! 3) AND 1 \<noteq> 1 \<and>
   columnSlice (sampleSlots ! 1) 2 [11, 15] colB = (Some 43, 4) \<and>
   cd_rawValue cdB = subarray samplePage (Some 43) (Some 47) \<and>
   parseColumn jet4 [] samplePage colB (Some 43) 4 = Inr (cd_value cdB) \<and>
   columnSlice (sampleSlots ! 1) 2 [11, 15] colD = (Some 47, 0) \<and>
   cd_value cdD = VNull"
proof -
  have j1: "1 < length (cols sampleTdef)" and j3: "3 < length (cols sampleTdef)"
    by (simp_all add: sampleTdef_def)
  have v1: "bitmask (cols sampleTdef ! 1) AND 1 \<noteq> 1"
    and v3: "bitmask (cols sampleTdef ! 3) AND 1 \<noteq> 1"
    by (simp_all add: sampleTdef_def colB_def colD_def)
  have at1: "cols sampleTdef ! 1 = colB" and at3: "cols sampleTdef ! 3 = colD"
    by (simp_all add: sampleTdef_def)
  from variable_column_slice [OF sample_layout sample_row j1 v1, unfolded at1]
  have "columnSlice (sampleSlots ! 1) 2 [11, 15] colB = (Some 43, 4)"
    and "cd_rawValue cdB = subarray samplePage (Some 43) (Some 47)"
    and "parseColumn jet4 [] samplePage colB (Some 43) 4 = Inr (cd_value cdB)"
    by (simp_all add: Let_def colB_def sampleSlots_def elemAt_def jsAdd_def)
  moreover from variable_column_slice [OF sample_layout sample_row j3 v3, unfolded at3]
  have "columnSlice (sampleSlots ! 1) 2 [11, 15] colD = (Some 47, 0)"
    and "cd_value cdD = VNull"
    by (simp_all add: Let_def colD_def sampleSlots_def elemAt_def bitsOf_2)
  ultimately show ?thesis
    using sample_layout sample_row j1 j3 v1 v3 by simp
qed

text \<open>One column and its null-mask entry, for any variable-offset table and null mask.\<close>

lemma readColumn_null:
  assumes "readColumn cfg file buf tdef slot varLenSize varOffsets nullMask column idx = Inr cd"
  shows "cd_isNull cd = (elemAt nullMask (col_number column) = Some 0) \<and>
         (cd_value cd = VNull) =
           (elemAt nullMask (col_number column) = Some 0 \<and>
            snd (columnSlice slot varLenSize varOffsets column) \<le> 0)"
proof -
  obtain start len where sl: "columnSlice slot varLenSize varOffsets column = (start, len)"
    by (cases "columnSlice slot varLenSize varOffsets column")
  from assms sl obtain v nm where
    v: "(if len > 0 then parseColumn cfg file buf column start len
         else Inr (if elemAt nullMask (col_number column) = Some 0 then VNull else VString []))
        = Inr v"
    and cd: "cd = \<lparr>cd_position = col_number column,
                   cd_rawValue = subarray buf start (jsAdd start len),
                   cd_type = col_type column, cd_name = nm,
                   cd_isNull = (elemAt nullMask (col_number column) = Some 0),
                   cd_value = v\<rparr>"
    by (auto simp: readColumn_def ebind_Inr_iff Let_def split: option.splits)
  show ?thesis
  proof (cases "len > 0")
    case True
    with v have "v \<noteq> VNull" by (auto dest: parseColumn_not_null)
    with True cd sl show ?thesis by simp
  next
    case False
    with v cd sl show ?thesis by (auto split: if_splits)
  qed
qed

text \<open>
  C8, as the code has it. In a decoded row, the flag \<open>isNull\<close> of a column is set
  exactly when the null-mask entry of its ordinal is 0. The value is \<open>null\<close> exactly
  when that entry is 0 and the computed length is not positive: a column with a positive
  length is always decoded by \<open>parseColumn\<close>, which never returns \<open>null\<close>.
\<close>

theorem isNull_follows_null_mask:
  assumes lay: "rowLayout cfg buf slot = Inr (varLenSize, varOffsets, nullMask)"
    and row: "readRow cfg file buf tdef slot = Inr cds"
    and j: "j < length (cols tdef)"
  shows "cd_isNull (cds ! j) = (elemAt nullMask (col_number (cols tdef ! j)) = Some 0) \<and>
         (cd_value (cds ! j) = VNull) =
           (elemAt nullMask (col_number (cols tdef ! j)) = Some 0 \<and>
            snd (columnSlice slot varLenSize varOffsets (cols tdef ! j)) \<le> 0)"
proof -
  from readRow_Inr [OF lay row] j
  have "readColumn cfg file buf tdef slot varLenSize varOffsets nullMask (cols tdef ! j) j
          = Inr (cds ! j)"
    by simp
  then show ?thesis by (rule readColumn_null)
qed

theorem isNull_follows_null_mask_witness:
  "rowLayout jet4 samplePage (sampleSlots ! 1) = Inr (2, [11, 15], bitsOf 2) \<and>
   readRow jet4 [] samplePage sampleTdef (sampleSlots ! 1) = Inr [cdA, cdB, cdC, cdD] \<and>
   3 < length (cols sampleTdef) \<and>
   elemAt (bitsOf 2) (col_number (cols sampleTdef ! 3)) = Some 0 \<and>
   snd (columnSlice (sampleSlots ! 1) 2 [11, 15] (cols sampleTdef ! 3)) \<le> 0 \<and>
   cd_isNull cdD \<and> cd_value cdD = VNull"
proof -
  have j3: "3 < length (cols sampleTdef)"
    by (simp add: sampleTdef_def)
  have bit0: "elemAt (bitsOf 2) (col_number (cols sampleTdef ! 3)) = Some 0"
    by (simp add: sampleTdef_def colD_def elemAt_def bitsOf_2)
  have len0: "snd (columnSlice (sampleSlots ! 1) 2 [11, 15] (cols sampleTdef ! 3)) \<le> 0"
    by (simp add: sampleTdef_def colD_def columnSlice_def)
  from isNull_follows_null_mask [OF sample_layout sample_row j3] bit0 len0
  have "cd_isNull cdD" and "cd_value cdD = VNull" by simp_all
  with sample_layout sample_row j3 bit0 len0 show ?thesis by simp
qed

text \<open>
  C8 as stated fails on \<open>samplePage\<close>: the null-mask bit of column ordinal 0 is 0 (the
  mask byte at offset 53 is \<open>0b00000010\<close>), and the value of that column is the number
  7, not \<open>null\<close>; only its \<open>isNull\<close> flag is set.
\<close>

theorem value_not_null_counterexample:
  "readRowsForPage jet4 [] samplePage sampleTdef
     = Inr [\<lparr>columns = [cdA, cdB, cdC, cdD], row_number = 0\<rparr>] \<and>
   cd_position cdA = 0 \<and> \<not> bit (samplePage ! 53) (0 :: nat) \<and>
   cd_isNull cdA \<and> cd_value cdA = VNumber 7 \<and> cd_value cdA \<noteq> VNull"
  using sample_rows by (simp add: cdA_def samplePage_def)

text \<open>The loop over the columns splits at any column.\<close>

lemma readColumns_append:
  "readColumns cfg file buf tdef slot vls vo nm idx (pre @ rest) =
     ebind (readColumns cfg file buf tdef slot vls vo nm idx pre) (\<lambda>a.
     ebind (readColumns cfg file buf tdef slot vls vo nm (idx + length pre) rest) (\<lambda>b.
       Inr (a @ b)))"
proof (induction pre arbitrary: idx)
  case Nil
  show ?case
    by (cases "readColumns cfg file buf tdef slot vls vo nm idx rest") simp_all
next
  case (Cons c pre)
  show ?case
  proof (cases "readColumn cfg file buf tdef slot vls vo nm c idx")
    case (Inl e)
    then show ?thesis by simp
  next
    case (Inr cd)
    show ?thesis
    proof (cases "readColumns cfg file buf tdef slot vls vo nm (Suc idx) pre")
      case (Inl e)
      with Inr Cons.IH [of "Suc idx"] show ?thesis by simp
    next
      case pre_ok: (Inr a)
      show ?thesis
      proof (cases "readColumns cfg file buf tdef slot vls vo nm (Suc (idx + length pre)) rest")
        case (Inl e)
        with Inr pre_ok Cons.IH [of "Suc idx"] show ?thesis by simp
      next
        case (Inr b)
        with \<open>readColumn cfg file buf tdef slot vls vo nm c idx = Inr cd\<close> pre_ok
          Cons.IH [of "Suc idx"] show ?thesis by simp
      qed
    qed
  qed
qed

lemma parseColumn_unknown:
  "col_type column \<notin> {1, 2, 3, 4, 7, 8, 10, 12} \<Longrightarrow>
   parseColumn cfg file buf column start len = Inr (VString (jsstr ''[unknown type]''))"
  by (simp add: parseColumn_def)

text \<open>The sentinel is the string \<open>[unknown type]\<close>, fourteen code units.\<close>

lemma unknown_type_code_units:
  "jsstr ''[unknown type]'' =
     [0x5B, 0x75, 0x6E, 0x6B, 0x6E, 0x6F, 0x77, 0x6E, 0x20, 0x74, 0x79, 0x70, 0x65, 0x5D]"
  by (simp add: jsstr_def)

text \<open>
  C7. A column whose type code is none of 1, 2, 3, 4, 7, 8, 10, 12 is decoded to the
  sentinel string \<open>[unknown type]\<close>, whatever the buffer, the start and the length
  are: no read is made, so no error can arise. In a row, such a column with a positive
  length and a name contributes one entry with the sentinel value, and the columns before
  and after it are decoded as they are without it.
\<close>

theorem unknown_type_sentinel:
  assumes "col_type column \<notin> {1, 2, 3, 4, 7, 8, 10, 12}"
  shows "parseColumn cfg file buf column start len = Inr (VString (jsstr ''[unknown type]'')) \<and>
    (rowLayout cfg buf slot = Inr (vls, vo, nm) \<longrightarrow>
     cols tdef = pre @ column # post \<longrightarrow>
     0 < snd (columnSlice slot vls vo column) \<longrightarrow>
     length pre < length (colNames tdef) \<longrightarrow>
     readRow cfg file buf tdef slot =
       ebind (readColumns cfg file buf tdef slot vls vo nm 0 pre) (\<lambda>a.
       ebind (readColumns cfg file buf tdef slot vls vo nm (length pre + 1) post) (\<lambda>b.
         Inr (a @
              \<lparr>cd_position = col_number column,
               cd_rawValue = subarray buf (fst (columnSlice slot vls vo column))
                 (jsAdd (fst (columnSlice slot vls vo column))
                        (snd (columnSlice slot vls vo column))),
               cd_type = col_type column,
               cd_name = colNames tdef ! length pre,
               cd_isNull = (elemAt nm (col_number column) = Some 0),
               cd_value = VString (jsstr ''[unknown type]'')\<rparr> # b))))"
proof (intro conjI impI)
  show "parseColumn cfg file buf column start len = Inr (VString (jsstr ''[unknown type]''))"
    using assms by (rule parseColumn_unknown)
next
  assume lay: "rowLayout cfg buf slot = Inr (vls, vo, nm)"
    and split: "cols tdef = pre @ column # post"
    and pos: "0 < snd (columnSlice slot vls vo column)"
    and named: "length pre < length (colNames tdef)"
  let ?cd = "\<lparr>cd_position = col_number column,
               cd_rawValue = subarray buf (fst (columnSlice slot vls vo column))
                 (jsAdd (fst (columnSlice slot vls vo column))
                        (snd (columnSlice slot vls vo column))),
               cd_type = col_type column,
               cd_name = colNames tdef ! length pre,
               cd_isNull = (elemAt nm (col_number column) = Some 0),
               cd_value = VString (jsstr ''[unknown type]'')\<rparr>"
  have one: "readColumn cfg file buf tdef slot vls vo nm column (length pre) = Inr ?cd"
    using pos named parseColumn_unknown [OF assms]
    by (simp add: readColumn_def split_beta elemAt_def Let_def)
  have row: "readRow cfg file buf tdef slot =
             readColumns cfg file buf tdef slot vls vo nm 0 (pre @ column # post)"
    using lay split by (simp add: readRow_def)
  show "readRow cfg file buf tdef slot =
       ebind (readColumns cfg file buf tdef slot vls vo nm 0 pre) (\<lambda>a.
       ebind (readColumns cfg file buf tdef slot vls vo nm (length pre + 1) post) (\<lambda>b.
         Inr (a @ ?cd # b)))"
  proof (cases "readColumns cfg file buf tdef slot vls vo nm 0 pre")
    case (Inl e)
    then show ?thesis by (simp add: row readColumns_append)
  next
    case (Inr a)
    then show ?thesis
      by (cases "readColumns cfg file buf tdef slot vls vo nm (Suc (length pre)) post")
         (simp_all add: row readColumns_append one)
  qed
qed

theorem unknown_type_sentinel_witness:
  "col_type colC \<notin> {1, 2, 3, 4, 7, 8, 10, 12} \<and>
   rowLayout jet4 samplePage (sampleSlots ! 1) = Inr (2, [11, 15], bitsOf 2) \<and>
   cols sampleTdef = [colA, colB] @ colC # [colD] \<and>
   0 < snd (columnSlice (sampleSlots ! 1) 2 [11, 15] colC) \<and>
   length [colA, colB] < length (colNames sampleTdef) \<and>
   parseColumn jet4 [] samplePage colC (Some 35) 8 = Inr (VString (jsstr ''[unknown type]'')) \<and>
   readRow jet4 [] samplePage sampleTdef (sampleSlots ! 1) = Inr ([cdA, cdB] @ cdC # [cdD]) \<and>
   cd_value cdC =
     VString [0x5B, 0x75, 0x6E, 0x6B, 0x6E, 0x6F, 0x77, 0x6E, 0x20, 0x74, 0x79, 0x70, 0x65, 0x5D]"
proof -
  have unknown: "col_type colC \<notin> {1, 2, 3, 4, 7, 8, 10, 12}"
    by (simp add: colC_def)
  have split: "cols sampleTdef = [colA, colB] @ colC # [colD]"
    by (simp add: sampleTdef_def)
  have pos: "0 < snd (columnSlice (sampleSlots ! 1) 2 [11, 15] colC)"
    by (simp add: columnSlice_def colC_def)
  have named: "length [colA, colB] < length (colNames sampleTdef)"
    by (simp add: sampleTdef_def)
  have before: "readColumns jet4 [] samplePage sampleTdef (sampleSlots ! 1) 2 [11, 15]
                  (bitsOf 2) 0 [colA, colB] = Inr [cdA, cdB]"
    using sample_colA sample_colB by simp
  have after: "readColumns jet4 [] samplePage sampleTdef (sampleSlots ! 1) 2 [11, 15]
                  (bitsOf 2) (length [colA, colB] + 1) [colD] = Inr [cdD]"
    using sample_colD by (simp add: numeral_3_eq_3)
  have entry: "\<lparr>cd_position = col_number colC,
                cd_rawValue = subarray samplePage
                  (fst (columnSlice (sampleSlots ! 1) 2 [11, 15] colC))
                  (jsAdd (fst (columnSlice (sampleSlots ! 1) 2 [11, 15] colC))
                         (snd (columnSlice (sampleSlots ! 1) 2 [11, 15] colC))),
                cd_type = col_type colC,
                cd_name = colNames sampleTdef ! length [colA, colB],
                cd_isNull = (elemAt (bitsOf 2) (col_number colC) = Some 0),
                cd_value = VString (jsstr ''[unknown type]'')\<rparr> = cdC"
    by (simp add: colC_def cdC_def columnSlice_def sampleSlots_def subarray_def clampIndex_def
        jsAdd_def samplePage_def sampleTdef_def elemAt_def bitsOf_2)
  from unknown_type_sentinel [OF unknown, of jet4 "[]" samplePage "Some 35" 8
      "sampleSlots ! 1" 2 "[11, 15]" "bitsOf 2" sampleTdef "[colA, colB]" "[colD]"]
    sample_layout split pos named
  have "parseColumn jet4 [] samplePage colC (Some 35) 8 = Inr (VString (jsstr ''[unknown type]''))"
    and "readRow jet4 [] samplePage sampleTdef (sampleSlots ! 1)
           = Inr ([cdA, cdB] @ cdC # [cdD])"
    by (simp_all only: before after entry ebind_Inr simp_thms)
  moreover have "cd_value cdC =
     VString [0x5B, 0x75, 0x6E, 0x6B, 0x6E, 0x6F, 0x77, 0x6E, 0x20, 0x74, 0x79, 0x70, 0x65, 0x5D]"
    by (simp add: cdC_def unknown_type_code_units)
  ultimately show ?thesis
    using unknown sample_layout split pos named by blast
qed

section \<open>Memo columns\<close>

text \<open>
  The memo branch once its four reads succeed: the length is the sum of the
  \<open>uint16\<close> at \<open>+0\<close> and the \<open>uint8\<close> at \<open>+2\<close>, the mask is the \<open>uint8\<close> at
  \<open>+3\<close>, and the \<open>uint32\<close> at \<open>+4\<close> gives the page (\<open>>> 8\<close>) and the row
  (\<open>& 0xff\<close>). Mask \<open>0x80\<close> decodes the bytes from \<open>start + 12\<close> on, mask \<open>0x40\<close>
  the bytes of slot \<open>memoRow\<close> of page \<open>memoPage\<close>, every other mask gives the
  sentinel.
\<close>

lemma parseMemo_branches:
  assumes "readUInt16LE buf start = Inr memoLen0"
    and "readUInt8 buf (jsAdd start 2) = Inr memoLen2"
    and "readUInt8 buf (jsAdd start 3) = Inr memoMask"
    and "readUInt32LE buf (jsAdd start 4) = Inr tmp"
  shows "parseColumn cfg file buf (column\<lparr>col_type := 12\<rparr>) start len =
     (if memoMask = 0x80 then
        Inr (VString (parseText cfg
          (subarray buf (jsAdd start 12) (jsAdd start (12 + int (memoLen0 + memoLen2))))))
      else if memoMask = 0x40 then
        ebind (readBuffer file (pageSize cfg) (sar8 tmp)) (\<lambda>memoBuffer.
        ebind (parseOffsets cfg memoBuffer) (\<lambda>offsets.
          if tmp AND 0xff < length offsets then
            Inr (VString (parseText cfg
              (subarray memoBuffer (Some (int (offset (offsets ! (tmp AND 0xff)))))
                 (Some (int (slot_next (offsets ! (tmp AND 0xff))))))))
          else Inl TypeError))
      else Inr (VString (jsstr ''[unknown type]'')))"
  using assms by (simp add: parseColumn_def parseMemo_def Let_def)

lemma memo_slots: "parseOffsets jet4 memoPage =
   Inr [\<lparr>lookupFlag = 0, delFlag = True, offset = 61, slot_next = 4096\<rparr>,
        \<lparr>lookupFlag = 0, delFlag = False, offset = 32, slot_next = 61\<rparr>]"
  by (simp add: parseOffsets_def eval_simps headerSize_def jet4_def memoPage_def rowOffset_def)

lemma sar8_0: "sar8 0 = 0"
  by (simp add: sar8_def)

lemma memo_layout:
  "rowLayout jet4 memoPage \<lparr>lookupFlag = 0, delFlag = False, offset = 32, slot_next = 61\<rparr>
     = Inr (2, [2, 22], bitsOf 1)"
  by (simp add: rowLayout_def eval_simps jet4_def memoPage_def)

lemma memo_row:
  "readRow jet4 [] memoPage memoTdef
      \<lparr>lookupFlag = 0, delFlag = False, offset = 32, slot_next = 61\<rparr>
   = Inr [\<lparr>cd_position = 0,
            cd_rawValue = [2, 0, 1, 0x80, 0, 0, 0, 0, 0, 0, 0, 0,
                           0x41, 0, 0x42, 0, 0x43, 0, 0x44, 0],
            cd_type = 12, cd_name = jsstr ''M'', cd_isNull = False,
            cd_value = VString [0x41]\<rparr>]"
  unfolding readRow_def memo_layout
  by (simp add: eval_simps jet4_def memoPage_def memoTdef_def
      column_simps parseMemo_def bitsOf_1 bitsOf_Suc_0 sar8_0)

text \<open>
  C6 on \<open>memoPage\<close>. The length bytes of the memo column are \<open>02 00 01\<close>, a 24-bit
  length of \<open>0x010002\<close>; the code adds the third byte to the first two without
  shifting it and takes the length 3, so it decodes the three bytes \<open>41 00 42\<close> to the
  one-character text \<open>A\<close> and leaves out the \<open>B\<close>, \<open>C\<close> and \<open>D\<close> that follow.
\<close>

theorem memo_length_is_sum_example:
  "readRowsForPage jet4 [] memoPage memoTdef =
     Inr [\<lparr>columns =
            [\<lparr>cd_position = 0,
              cd_rawValue = [2, 0, 1, 0x80, 0, 0, 0, 0, 0, 0, 0, 0,
                             0x41, 0, 0x42, 0, 0x43, 0, 0x44, 0],
              cd_type = 12, cd_name = jsstr ''M'', cd_isNull = False,
              cd_value = VString [0x41]\<rparr>],
           row_number = 0\<rparr>]"
  using memo_row by (simp add: readRowsForPage_def memo_slots)

text \<open>
  Read as a 24-bit length the same three bytes give 65538, and the slice from
  \<open>start + 12\<close> (here 46) to the end of the page would decode to a text that begins
  \<open>ABCD\<close>.
\<close>

lemma memo_24bit_reading:
  "take 4 (parseText jet4 (subarray memoPage (Some (34 + 12)) (Some (34 + 12 + 65538))))
     = [0x41, 0x42, 0x43, 0x44]"
  by (simp add: parseText_def jet4_def subarray_def clampIndex_def memoPage_def byteAt_def)

section \<open>Unknown table names\<close>

lemma findIndex_ge: "- 1 \<le> findIndex P xs"
  by (induction xs) (simp_all add: Let_def)

lemma findIndex_none: "(findIndex P xs = - 1) = (\<forall>x \<in> set xs. \<not> P x)"
proof (induction xs)
  case Nil
  show ?case by simp
next
  case (Cons x xs)
  from findIndex_ge [of P xs] have "findIndex P xs < 0 \<longleftrightarrow> findIndex P xs = - 1" by linarith
  with Cons show ?case by (auto simp: Let_def)
qed

text \<open>
  C9, as the code has it. When no row of the user tables matches the name,
  \<open>findIndex\<close> answers \<open>-1\<close>, \<open>this.schema[-1]\<close> is \<open>undefined\<close>, and both
  \<open>columns\<close> and \<open>rows\<close> fail with the \<open>TypeError\<close> of the property read on it,
  before any page is read.
\<close>

theorem unknown_table_type_error:
  assumes "\<forall>p \<in> set (userTables db). \<not> nameMatches coerceEq table p"
  shows "columns_of coerceEq db table = Inl TypeError \<and> rows coerceEq db table = Inl TypeError"
proof -
  from assms have "tableIndex coerceEq db table = - 1"
    by (simp add: tableIndex_def findIndex_none)
  then show ?thesis by (simp add: columns_of_def rows_def schemaAt_def)
qed


lemma sampleDb_no_match:
  "\<forall>p \<in> set (userTables sampleDb). \<not> nameMatches (\<lambda>v t. False) (jsstr ''Nope'') p"
  by (simp add: sampleDb_def nameMatches_def jsstr_def)

theorem unknown_table_type_error_witness:
  "length (userTables sampleDb) = 1 \<and>
   \<not> nameMatches (\<lambda>v t. False) (jsstr ''Nope'') (userTables sampleDb ! 0) \<and>
   columns_of (\<lambda>v t. False) sampleDb (jsstr ''Nope'') = Inl TypeError \<and>
   rows (\<lambda>v t. False) sampleDb (jsstr ''Nope'') = Inl TypeError"
  using unknown_table_type_error [OF sampleDb_no_match] sampleDb_no_match
  by (simp add: sampleDb_def)

text \<open>
  C9 as stated fails: for the name \<open>Nope\<close>, which matches no row of \<open>sampleDb\<close>, the
  error of \<open>columns\<close> and of \<open>rows\<close> is the \<open>TypeError\<close>, which carries no table
  name, and not an unknown-table error.
\<close>

theorem unknown_table_counterexample:
  "columns_of (\<lambda>v t. False) sampleDb (jsstr ''Nope'') = Inl TypeError \<and>
   columns_of (\<lambda>v t. False) sampleDb (jsstr ''Nope'') \<noteq> Inl (UnknownTable (jsstr ''Nope'')) \<and>
   rows (\<lambda>v t. False) sampleDb (jsstr ''Nope'') = Inl TypeError \<and>
   rows (\<lambda>v t. False) sampleDb (jsstr ''Nope'') \<noteq> Inl (UnknownTable (jsstr ''Nope''))"
  by (simp add: columns_of_def rows_def schemaAt_def tableIndex_def sampleDb_def
      nameMatches_def jsstr_def)

lemma known_table_columns:
  "columns_of (\<lambda>v t. False) sampleDb (jsstr ''Table1'')
     = Inr [jsstr ''A'', jsstr ''B'', jsstr ''C'', jsstr ''D'']"
  by (simp add: columns_of_def schemaAt_def tableIndex_def sampleDb_def nameMatches_def
      elemAt_def sampleTdef_def)

end
